theory Spec2Isabelle
  imports Main "HOL-Library.Char_ord" "HOL-Library.List_Lexorder" "HOL-Library.Multiset"
begin

section \<open>JavaScript values\<close>

text \<open>
  The diff service works on untyped JavaScript data (\<^verbatim>\<open>from as any\<close>).  A value is
  \<^verbatim>\<open>undefined\<close>, \<^verbatim>\<open>null\<close>, a boolean, a number, a string, an array or a plain object.
  Numbers are the integers (no fractions, no NaN, no infinities); strings are lists of
  8-bit characters compared by character code, as JavaScript compares ASCII strings.
  An object is the list of its own properties in insertion order; a well-formed object
  (\<open>wf_val\<close>) has no property twice.  Functions and inherited members of the built-in
  prototypes (\<^verbatim>\<open>toString\<close>, \<^verbatim>\<open>constructor\<close>, ...) are not values of the model, and
  integer-like property names are enumerated in insertion order like all others.
\<close>

datatype jsval =
    JUndefined
  | JNull
  | JBool bool
  | JNum int
  | JStr string
  | JArr "jsval list"
  | JObj "(string \<times> jsval) list"

type_synonym jsobj = "(string \<times> jsval) list"

fun isNil :: "jsval \<Rightarrow> bool" where
  "isNil JUndefined = True"
| "isNil JNull = True"
| "isNil _ = False"

fun isArray :: "jsval \<Rightarrow> bool" where
  "isArray (JArr _) = True"
| "isArray _ = False"

text \<open>JavaScript truthiness: \<^verbatim>\<open>!v\<close> holds for \<^verbatim>\<open>undefined\<close>, \<^verbatim>\<open>null\<close>, \<^verbatim>\<open>false\<close>, \<^verbatim>\<open>0\<close> and \<^verbatim>\<open>''\<close>.\<close>

fun falsy :: "jsval \<Rightarrow> bool" where
  "falsy JUndefined = True"
| "falsy JNull = True"
| "falsy (JBool b) = (\<not> b)"
| "falsy (JNum n) = (n = 0)"
| "falsy (JStr s) = (s = [])"
| "falsy _ = False"

subsection \<open>Property access\<close>

fun digit_val :: "char \<Rightarrow> nat option" where
  "digit_val c = (if CHR ''0'' \<le> c \<and> c \<le> CHR ''9'' then Some (of_char c - 48) else None)"

fun index_acc :: "nat \<Rightarrow> string \<Rightarrow> nat option" where
  "index_acc n [] = Some n"
| "index_acc n (c # cs) =
     (case digit_val c of None \<Rightarrow> None | Some d \<Rightarrow> index_acc (10 * n + d) cs)"

text \<open>A property name is an array index when it is the canonical decimal numeral of a
  natural number (\<^verbatim>\<open>'0'\<close>, \<^verbatim>\<open>'17'\<close>, but not \<^verbatim>\<open>'017'\<close> or \<^verbatim>\<open>''\<close>).\<close>

fun index_of_key :: "string \<Rightarrow> nat option" where
  "index_of_key [] = None"
| "index_of_key [c] = digit_val c"
| "index_of_key (c # cs) = (if c = CHR ''0'' then None else index_acc 0 (c # cs))"

fun lookup :: "jsobj \<Rightarrow> string \<Rightarrow> jsval" where
  "lookup [] k = JUndefined"
| "lookup ((k', v) # ps) k = (if k' = k then v else lookup ps k)"

text \<open>\<^verbatim>\<open>v[key]\<close> for a receiver \<open>v\<close> that is neither \<^verbatim>\<open>undefined\<close> nor \<^verbatim>\<open>null\<close> (on those
  JavaScript throws a TypeError, which the callers below raise themselves): the own
  property of an object, an element or the length of an array or string, and
  \<^verbatim>\<open>undefined\<close> otherwise.\<close>

fun get_prop :: "jsval \<Rightarrow> string \<Rightarrow> jsval" where
  "get_prop (JObj ps) k = lookup ps k"
| "get_prop (JArr xs) k =
     (if k = ''length'' then JNum (int (length xs))
      else case index_of_key k of
             Some i \<Rightarrow> (if i < length xs then xs ! i else JUndefined)
           | None \<Rightarrow> JUndefined)"
| "get_prop (JStr s) k =
     (if k = ''length'' then JNum (int (length s))
      else case index_of_key k of
             Some i \<Rightarrow> (if i < length s then JStr [s ! i] else JUndefined)
           | None \<Rightarrow> JUndefined)"
| "get_prop _ k = JUndefined"

text \<open>\<^verbatim>\<open>obj[key] = v\<close> on a plain object: an existing property keeps its place, a new
  one goes last.\<close>

fun set_prop :: "jsobj \<Rightarrow> string \<Rightarrow> jsval \<Rightarrow> jsobj" where
  "set_prop [] k v = [(k, v)]"
| "set_prop ((k', v') # ps) k v =
     (if k' = k then (k, v) # ps else (k', v') # set_prop ps k v)"

subsection \<open>String coercion\<close>

definition digit_char :: "nat \<Rightarrow> char" where
  "digit_char d = ''0123456789'' ! (d mod 10)"

fun string_of_nat :: "nat \<Rightarrow> string" where
  "string_of_nat n =
     (if n < 10 then [digit_char n] else string_of_nat (n div 10) @ [digit_char (n mod 10)])"

declare string_of_nat.simps [simp del]

lemma string_of_nat_small: "n < 10 \<Longrightarrow> string_of_nat n = [digit_char n]"
  by (simp add: string_of_nat.simps)

lemma string_of_nat_big:
  "\<not> n < 10 \<Longrightarrow> string_of_nat n = string_of_nat (n div 10) @ [digit_char (n mod 10)]"
  by (subst string_of_nat.simps) simp

definition string_of_int :: "int \<Rightarrow> string" where
  "string_of_int i = (if i < 0 then CHR ''-'' # string_of_nat (nat (- i)) else string_of_nat (nat i))"

fun join :: "string \<Rightarrow> string list \<Rightarrow> string" where
  "join sep [] = []"
| "join sep [s] = s"
| "join sep (s # t # ss) = s @ sep @ join sep (t # ss)"

text \<open>\<^verbatim>\<open>v.toString()\<close>; an array joins its elements with commas, writing nothing for
  \<^verbatim>\<open>null\<close> and \<^verbatim>\<open>undefined\<close> elements.  (On \<^verbatim>\<open>undefined\<close> and \<^verbatim>\<open>null\<close> themselves the call
  would throw; the service never makes it, and the model gives what \<^verbatim>\<open>String(v)\<close> gives.)\<close>

fun toString :: "jsval \<Rightarrow> string" where
  "toString JUndefined = ''undefined''"
| "toString JNull = ''null''"
| "toString (JBool b) = (if b then ''true'' else ''false'')"
| "toString (JNum n) = string_of_int n"
| "toString (JStr s) = s"
| "toString (JArr xs) = join '','' (map (\<lambda>x. if isNil x then [] else toString x) xs)"
| "toString (JObj ps) = ''[object Object]''"

definition lower_char :: "char \<Rightarrow> char" where
  "lower_char c =
     (case map_of (zip ''ABCDEFGHIJKLMNOPQRSTUVWXYZ'' ''abcdefghijklmnopqrstuvwxyz'') c of
        Some l \<Rightarrow> l
      | None \<Rightarrow> c)"

definition toLowerCase :: "string \<Rightarrow> string" where
  "toLowerCase s = map lower_char s"

subsection \<open>\<^verbatim>\<open>JSON.stringify\<close>\<close>

definition hex_char :: "nat \<Rightarrow> char" where
  "hex_char d = ''0123456789abcdef'' ! (d mod 16)"

definition escape_char :: "char \<Rightarrow> string" where
  "escape_char c =
     (if c = CHR 0x22 then [CHR 0x5C, CHR 0x22]
      else if c = CHR 0x5C then [CHR 0x5C, CHR 0x5C]
      else if c = CHR 0x08 then [CHR 0x5C, CHR ''b'']
      else if c = CHR 0x09 then [CHR 0x5C, CHR ''t'']
      else if c = CHR 0x0A then [CHR 0x5C, CHR ''n'']
      else if c = CHR 0x0C then [CHR 0x5C, CHR ''f'']
      else if c = CHR 0x0D then [CHR 0x5C, CHR ''r'']
      else if (of_char c :: nat) < 32
        then [CHR 0x5C, CHR ''u'', CHR ''0'', CHR ''0'',
              hex_char (of_char c div 16), hex_char (of_char c mod 16)]
      else [c])"

definition quote :: "string \<Rightarrow> string" where
  "quote s = CHR 0x22 # concat (map escape_char s) @ [CHR 0x22]"

text \<open>The serialisation of a value inside a container: an \<^verbatim>\<open>undefined\<close> array element is
  written \<^verbatim>\<open>null\<close>, an \<^verbatim>\<open>undefined\<close> property is left out.\<close>

fun json :: "jsval \<Rightarrow> string"
  and json_elems :: "jsval list \<Rightarrow> string list"
  and json_members :: "(string \<times> jsval) list \<Rightarrow> string list" where
  "json JUndefined = ''null''"
| "json JNull = ''null''"
| "json (JBool b) = (if b then ''true'' else ''false'')"
| "json (JNum n) = string_of_int n"
| "json (JStr s) = quote s"
| "json (JArr xs) = ''['' @ join '','' (json_elems xs) @ '']''"
| "json (JObj ps) = ''{'' @ join '','' (json_members ps) @ ''}''"
| "json_elems [] = []"
| "json_elems (x # xs) = json x # json_elems xs"
| "json_members [] = []"
| "json_members ((k, v) # ps) =
     (if v = JUndefined then json_members ps
      else (quote k @ '':'' @ json v) # json_members ps)"

text \<open>\<^verbatim>\<open>JSON.stringify(v)\<close> is \<^verbatim>\<open>undefined\<close> (here \<open>None\<close>) for \<^verbatim>\<open>undefined\<close>.\<close>

definition JSON_stringify :: "jsval \<Rightarrow> string option" where
  "JSON_stringify v = (if v = JUndefined then None else Some (json v))"

subsection \<open>lodash: \<^verbatim>\<open>isEqual\<close>, \<^verbatim>\<open>intersection\<close>, \<^verbatim>\<open>find\<close>, \<^verbatim>\<open>sortBy\<close>\<close>

text \<open>Deep equality: arrays are equal when they have equal elements in the same order,
  objects when they have the same number of properties and every property of the first
  is a property of the second with an equal value.\<close>

function isEqual :: "jsval \<Rightarrow> jsval \<Rightarrow> bool" where
  "isEqual (JArr xs) b =
     (case b of
        JArr ys \<Rightarrow> length xs = length ys \<and> (\<forall>i \<in> set [0..<length xs]. isEqual (xs ! i) (ys ! i))
      | _ \<Rightarrow> False)"
| "isEqual (JObj ps) b =
     (case b of
        JObj qs \<Rightarrow> length ps = length qs \<and>
          (\<forall>k \<in> set (map fst ps). k \<in> set (map fst qs) \<and> isEqual (lookup ps k) (lookup qs k))
      | _ \<Rightarrow> False)"
| "isEqual JUndefined b = (b = JUndefined)"
| "isEqual JNull b = (b = JNull)"
| "isEqual (JBool x) b = (b = JBool x)"
| "isEqual (JNum x) b = (b = JNum x)"
| "isEqual (JStr x) b = (b = JStr x)"
  by pat_completeness auto

lemma size_lookup:
  "k \<in> fst ` set ps \<Longrightarrow> size (lookup ps k) < Suc (size_list (size_prod (\<lambda>x. 0) size) ps)"
  by (induction ps) (auto simp: rev_image_eqI less_Suc_eq)

lemma size_nth: "i < length xs \<Longrightarrow> size (xs ! i) < Suc (size_list size (xs :: jsval list))"
proof (induction xs arbitrary: i)
  case Nil
  then show ?case by simp
next
  case (Cons a xs)
  show ?case
  proof (cases i)
    case 0
    then show ?thesis by simp
  next
    case (Suc j)
    with Cons.prems have "j < length xs" by simp
    from Cons.IH[OF this] show ?thesis using Suc by simp
  qed
qed

termination isEqual
proof (relation "measure (\<lambda>(a, b). size a)", goal_cases)
  case 1
  show ?case by simp
next
  case (2 xs b ys i)
  then show ?case by (simp add: size_nth)
next
  case (3 ps b qs k)
  then show ?case using size_lookup[of k ps] by simp
qed

text \<open>\<^verbatim>\<open>intersection(xs, ys)\<close>: the values of \<open>xs\<close> that occur in \<open>ys\<close>, each once, in the
  order of their first occurrence in \<open>xs\<close>.\<close>

fun intersection_acc :: "'a list \<Rightarrow> 'a list \<Rightarrow> 'a list \<Rightarrow> 'a list" where
  "intersection_acc res [] ys = res"
| "intersection_acc res (x # xs) ys =
     intersection_acc (if x \<in> set ys \<and> x \<notin> set res then res @ [x] else res) xs ys"

definition intersection :: "'a list \<Rightarrow> 'a list \<Rightarrow> 'a list" where
  "intersection xs ys = intersection_acc [] xs ys"

text \<open>The relational comparison \<^verbatim>\<open>a < b\<close>.  Two strings compare lexicographically
  (arrays and objects are first turned into strings); booleans, numbers and \<^verbatim>\<open>null\<close>
  compare as numbers; \<^verbatim>\<open>undefined\<close> compares with nothing.  Comparing a string with a
  number would convert the string to a number, which is outside the integers of this
  model: such a pair is left unordered here.\<close>

fun to_prim_string :: "jsval \<Rightarrow> string option" where
  "to_prim_string (JStr s) = Some s"
| "to_prim_string (JArr xs) = Some (toString (JArr xs))"
| "to_prim_string (JObj ps) = Some (toString (JObj ps))"
| "to_prim_string _ = None"

fun to_number :: "jsval \<Rightarrow> int option" where
  "to_number (JNum n) = Some n"
| "to_number (JBool b) = Some (if b then 1 else 0)"
| "to_number JNull = Some 0"
| "to_number _ = None"

definition js_less :: "jsval \<Rightarrow> jsval \<Rightarrow> bool" where
  "js_less a b =
     (case (to_prim_string a, to_prim_string b) of
        (Some s, Some t) \<Rightarrow> s < t
      | _ \<Rightarrow> (case (to_number a, to_number b) of
                 (Some m, Some n) \<Rightarrow> m < n
               | _ \<Rightarrow> False))"

text \<open>lodash's \<^verbatim>\<open>compareAscending\<close> (without symbols and NaN): \<^verbatim>\<open>undefined\<close> sorts last,
  \<^verbatim>\<open>null\<close> just before it.\<close>

definition compareAscending :: "jsval \<Rightarrow> jsval \<Rightarrow> int" where
  "compareAscending v other =
     (if v \<noteq> other then
        (if (other \<noteq> JNull \<and> js_less other v) \<or> (v = JNull \<and> other \<noteq> JUndefined)
            \<or> v = JUndefined then 1
         else if (v \<noteq> JNull \<and> js_less v other) \<or> (other = JNull \<and> v \<noteq> JUndefined)
            \<or> other = JUndefined then - 1
         else 0)
      else 0)"

text \<open>\<^verbatim>\<open>sortBy(values)\<close> is a stable ascending sort by \<^verbatim>\<open>compareAscending\<close>: an element
  goes behind exactly the later elements that compare smaller.\<close>

fun insort_val :: "jsval \<Rightarrow> jsval list \<Rightarrow> jsval list" where
  "insort_val x [] = [x]"
| "insort_val x (y # ys) =
     (if compareAscending x y > 0 then y # insort_val x ys else x # y # ys)"

definition sortBy :: "jsval list \<Rightarrow> jsval list" where
  "sortBy xs = foldr insort_val xs []"

text \<open>\<^verbatim>\<open>find(array, predicate)\<close> and \<^verbatim>\<open>array.filter(predicate)\<close> for a predicate that may
  throw.\<close>

datatype error = TypeError | Error string

fun find_item :: "(jsval \<Rightarrow> error + bool) \<Rightarrow> jsval list \<Rightarrow> error + jsval" where
  "find_item p [] = Inr JUndefined"
| "find_item p (x # xs) =
     (case p x of
        Inl e \<Rightarrow> Inl e
      | Inr b \<Rightarrow> if b then Inr x else find_item p xs)"

fun filter_items :: "(jsval \<Rightarrow> error + bool) \<Rightarrow> jsval list \<Rightarrow> error + jsval list" where
  "filter_items p [] = Inr []"
| "filter_items p (x # xs) =
     (case p x of
        Inl e \<Rightarrow> Inl e
      | Inr b \<Rightarrow>
          (case filter_items p xs of
             Inl e \<Rightarrow> Inl e
           | Inr ys \<Rightarrow> Inr (if b then x # ys else ys)))"

section \<open>The descriptor model\<close>

text \<open>\<^verbatim>\<open>property-descriptors.ts\<close>: a type descriptor has a name, a property map and an
  optional primary key (one property name or an array of them); a property descriptor has
  a type, an optional nested type descriptor and the optional name that
  \<^verbatim>\<open>TypeDescriptors.create\<close> binds.\<close>

datatype prop_type = TBoolean | TNumber | TString | TComplex

datatype primary_key = PkSingle string | PkArray "string list"

datatype type_descriptor =
    TypeDescriptor (td_name: string)
                   (td_properties: "(string \<times> property_descriptor) list")
                   (td_primaryKey: "primary_key option")
  and property_descriptor =
    PropertyDescriptor (pd_type: prop_type)
                       (pd_descriptor: "type_descriptor option")
                       (pd_name: "string option")

text \<open>\<^verbatim>\<open>TypeDescriptors.create\<close> sets every property descriptor's name to its key.\<close>

definition create :: "type_descriptor \<Rightarrow> type_descriptor" where
  "create config =
     TypeDescriptor (td_name config)
       (map (\<lambda>(key, property). (key, PropertyDescriptor (pd_type property) (pd_descriptor property) (Some key)))
            (td_properties config))
       (td_primaryKey config)"

definition boolean :: property_descriptor where
  "boolean = PropertyDescriptor TBoolean None None"

definition number :: property_descriptor where
  "number = PropertyDescriptor TNumber None None"

definition string :: property_descriptor where
  "string = PropertyDescriptor TString None None"

definition complex :: "type_descriptor \<Rightarrow> property_descriptor" where
  "complex d = PropertyDescriptor TComplex (Some d) None"

section \<open>The array reconciler\<close>

text \<open>\<^verbatim>\<open>_toArray\<close>: \<^verbatim>\<open>undefined\<close> for a missing or empty-string key, else the array of names.\<close>

fun toArray :: "primary_key option \<Rightarrow> string list option" where
  "toArray None = None"
| "toArray (Some (PkSingle s)) = (if s = [] then None else Some [s])"
| "toArray (Some (PkArray ks)) = Some ks"

text \<open>\<^verbatim>\<open>_getPrimaryKeyValue\<close>: the loop appends \<^verbatim>\<open>name:value;\<close> for each primary key name in
  sorted order; reading a property of \<^verbatim>\<open>null\<close> or \<^verbatim>\<open>undefined\<close> throws.\<close>

definition or_empty :: "jsval \<Rightarrow> jsval" where
  "or_empty v = (if falsy v then JStr [] else v)"

fun getPrimaryKeyValue_loop :: "jsval \<Rightarrow> string list \<Rightarrow> string \<Rightarrow> error + string" where
  "getPrimaryKeyValue_loop item [] result = Inr result"
| "getPrimaryKeyValue_loop item (primaryKey # rest) result =
     (if isNil item then Inl TypeError
      else getPrimaryKeyValue_loop item rest
             (result @ primaryKey @ '':'' @ toLowerCase (toString (or_empty (get_prop item primaryKey))) @ '';''))"

definition getPrimaryKeyValue :: "jsval \<Rightarrow> string list \<Rightarrow> error + string" where
  "getPrimaryKeyValue item primaryKeys = getPrimaryKeyValue_loop item (sort primaryKeys) []"

fun getPrimaryKeyValues_loop :: "jsval list \<Rightarrow> string list \<Rightarrow> string list \<Rightarrow> error + string list" where
  "getPrimaryKeyValues_loop [] primaryKeys keyValues = Inr keyValues"
| "getPrimaryKeyValues_loop (item # items) primaryKeys keyValues =
     (case getPrimaryKeyValue item primaryKeys of
        Inl e \<Rightarrow> Inl e
      | Inr kv \<Rightarrow> getPrimaryKeyValues_loop items primaryKeys (keyValues @ [kv]))"

definition getPrimaryKeyValues :: "jsval list \<Rightarrow> string list \<Rightarrow> error + string list" where
  "getPrimaryKeyValues items primaryKeys =
     (case getPrimaryKeyValues_loop items primaryKeys [] of
        Inl e \<Rightarrow> Inl e
      | Inr keyValues \<Rightarrow> Inr (sort keyValues))"

datatype changes =
  Changes (removed: "jsval list") (added: "jsval list") (inBoth: "(string \<times> jsval \<times> jsval) list")

definition uh_oh :: string where
  "uh_oh = ''Uh oh...something didn'' @ [CHR 0x27] @ ''t go right''"

definition unmatched :: "string list \<Rightarrow> string list \<Rightarrow> jsval \<Rightarrow> error + bool" where
  "unmatched matched primaryKeys item =
     (case getPrimaryKeyValue item primaryKeys of
        Inl e \<Rightarrow> Inl e
      | Inr kv \<Rightarrow> Inr (kv \<notin> set matched))"

definition has_key :: "string list \<Rightarrow> string \<Rightarrow> jsval \<Rightarrow> error + bool" where
  "has_key primaryKeys keyValue item =
     (case getPrimaryKeyValue item primaryKeys of
        Inl e \<Rightarrow> Inl e
      | Inr kv \<Rightarrow> Inr (kv = keyValue))"

text \<open>The \<^verbatim>\<open>matched.map\<close> callback of \<^verbatim>\<open>_getChanges\<close>: the first element with the key on
  each side, or the error when one of the two is falsy.\<close>

fun match_pairs ::
  "jsval list \<Rightarrow> jsval list \<Rightarrow> string list \<Rightarrow> string list \<Rightarrow> error + (string \<times> jsval \<times> jsval) list" where
  "match_pairs fromItems toItems primaryKeys [] = Inr []"
| "match_pairs fromItems toItems primaryKeys (keyValue # rest) =
     (case find_item (has_key primaryKeys keyValue) fromItems of
        Inl e \<Rightarrow> Inl e
      | Inr f \<Rightarrow>
          (case find_item (has_key primaryKeys keyValue) toItems of
             Inl e \<Rightarrow> Inl e
           | Inr t \<Rightarrow>
               if falsy f \<or> falsy t then Inl (Error uh_oh)
               else (case match_pairs fromItems toItems primaryKeys rest of
                       Inl e \<Rightarrow> Inl e
                     | Inr pairs \<Rightarrow> Inr ((keyValue, f, t) # pairs))))"

definition getChanges :: "jsval list \<Rightarrow> jsval list \<Rightarrow> string list \<Rightarrow> error + changes" where
  "getChanges fromItems toItems primaryKeys =
     (case getPrimaryKeyValues fromItems primaryKeys of
        Inl e \<Rightarrow> Inl e
      | Inr fromKeyValues \<Rightarrow>
     (case getPrimaryKeyValues toItems primaryKeys of
        Inl e \<Rightarrow> Inl e
      | Inr toKeyValues \<Rightarrow>
     (let matched = intersection fromKeyValues toKeyValues in
      case filter_items (unmatched matched primaryKeys) fromItems of
        Inl e \<Rightarrow> Inl e
      | Inr rs \<Rightarrow>
     (case filter_items (unmatched matched primaryKeys) toItems of
        Inl e \<Rightarrow> Inl e
      | Inr as \<Rightarrow>
     (case match_pairs fromItems toItems primaryKeys matched of
        Inl e \<Rightarrow> Inl e
      | Inr pairs \<Rightarrow> Inr (Changes rs as pairs))))))"

section \<open>The diff engine\<close>

text \<open>The engine mutates the change result it is given and calls the logger's \<^verbatim>\<open>error\<close>
  method; it ends by returning or by a thrown error.  In the model every function takes
  the change result and the list of messages logged so far, and yields \<open>Done\<close> with their
  new values or \<open>Thrown\<close> with the error and the messages logged before it.  The
  parameters \<^verbatim>\<open>fromRoot\<close>, \<^verbatim>\<open>toRoot\<close> and \<^verbatim>\<open>root\<close> of the source are only handed on and never
  read; the model leaves them out.\<close>

datatype 'a outcome = Done 'a "string list" | Thrown error "string list"

fun elems :: "jsval \<Rightarrow> jsval list" where
  "elems (JArr xs) = xs"
| "elems _ = []"

definition quoted :: "string \<Rightarrow> string" where
  "quoted s = [CHR 0x27] @ s @ [CHR 0x27]"

definition msg_name :: "type_descriptor \<Rightarrow> string" where
  "msg_name d = ''Property descriptors need a property name (property: '' @ quoted (td_name d) @ '').''"

definition msg_descriptor :: "type_descriptor \<Rightarrow> string \<Rightarrow> string" where
  "msg_descriptor d n =
     ''Property descriptors for complex properties need a type descriptor (property: ''
       @ quoted (td_name d @ ''.'' @ n) @ '').''"

definition msg_primaryKey :: "type_descriptor \<Rightarrow> string \<Rightarrow> string" where
  "msg_primaryKey d n =
     ''Property descriptors for complex arrays need a primaryKey (property: ''
       @ quoted (td_name d @ ''.'' @ n) @ '').''"

definition msg_non_array :: "string \<Rightarrow> string" where
  "msg_non_array n = ''Unexpected non-array complex type: '' @ quoted n"

subsection \<open>The snapshot projector\<close>

lemma size_map_of:
  "map_of ps k = Some pd \<Longrightarrow> pd_descriptor pd = Some d' \<Longrightarrow>
   size d' < Suc (size_list (size_prod (\<lambda>x. 0) size) ps)"
  apply (induction ps) apply (auto split: if_splits)
  apply (cases pd) apply auto
  done

lemma size_nested:
  "map_of (td_properties d) k = Some pd \<Longrightarrow> pd_descriptor pd = Some d' \<Longrightarrow> size d' < size d"
  by (cases d) (auto dest: size_map_of)

text \<open>\<^verbatim>\<open>_processComplexTypeTransformations\<close>: \<open>transform_keys\<close> is its loop over the sorted
  property keys, \<open>transform_items\<close> the inner loop over the elements of a complex array.\<close>

function (sequential)
  processComplexTypeTransformations ::
    "jsobj \<Rightarrow> jsval \<Rightarrow> type_descriptor \<Rightarrow> string list \<Rightarrow> jsobj outcome"
  and transform_keys ::
    "string list \<Rightarrow> jsobj \<Rightarrow> jsval \<Rightarrow> type_descriptor \<Rightarrow> string list \<Rightarrow> jsobj outcome"
  and transform_items ::
    "jsval list \<Rightarrow> jsval list \<Rightarrow> type_descriptor \<Rightarrow> string list \<Rightarrow> (jsval list) outcome"
where
  "processComplexTypeTransformations result property descriptor lg =
     transform_keys (sort (map fst (td_properties descriptor))) result property descriptor lg"
| "transform_keys [] result property descriptor lg = Done result lg"
| "transform_keys (key # keys) result property descriptor lg =
     (case map_of (td_properties descriptor) key of
        None \<Rightarrow> Thrown TypeError lg
      | Some propertyDescriptor \<Rightarrow>
          (case pd_name propertyDescriptor of
             None \<Rightarrow> Done result (lg @ [msg_name descriptor])
           | Some propertyDescriptorName \<Rightarrow>
               if propertyDescriptorName = [] then Done result (lg @ [msg_name descriptor])
               else if isNil property then Thrown TypeError lg
               else if pd_type propertyDescriptor = TComplex then
                 (case pd_descriptor propertyDescriptor of
                    None \<Rightarrow> Done result (lg @ [msg_descriptor descriptor propertyDescriptorName])
                  | Some propertyTypeDescriptor \<Rightarrow>
                      if isArray (get_prop property key) then
                        (case transform_items (elems (get_prop property key)) [] propertyTypeDescriptor lg of
                           Thrown e lg' \<Rightarrow> Thrown e lg'
                         | Done itemResults lg' \<Rightarrow>
                             transform_keys keys
                               (if itemResults \<noteq> []
                                then set_prop result propertyDescriptorName (JArr itemResults)
                                else result)
                               property descriptor lg')
                      else if \<not> isNil (get_prop property key)
                        then Thrown (Error (msg_non_array propertyDescriptorName)) lg
                      else transform_keys keys result property descriptor lg)
               else
                 (let propertyValue = get_prop property propertyDescriptorName
                  in transform_keys keys
                       (if \<not> isNil propertyValue
                        then set_prop result propertyDescriptorName propertyValue
                        else result)
                       property descriptor lg)))"
| "transform_items [] itemResults descriptor lg = Done itemResults lg"
| "transform_items (propertyValueItem # rest) itemResults descriptor lg =
     (case processComplexTypeTransformations [] propertyValueItem descriptor lg of
        Thrown e lg' \<Rightarrow> Thrown e lg'
      | Done itemResult lg' \<Rightarrow> transform_items rest (itemResults @ [JObj itemResult]) descriptor lg')"
  by pat_completeness auto

termination
  apply (relation "inv_image (less_than <*lex*> less_than <*lex*> less_than)
     (\<lambda>x. case x of
        Inl (result, property, descriptor, lg) \<Rightarrow> (size descriptor, 1, 0)
      | Inr (Inl (keys, result, property, descriptor, lg)) \<Rightarrow> (size descriptor, 0, length keys)
      | Inr (Inr (items, itemResults, descriptor, lg)) \<Rightarrow> (size descriptor, 2, length items))")
       apply (auto simp: size_nested)
  done



subsection \<open>The recursive property walk\<close>

text \<open>\<^verbatim>\<open>changes.removed.map(...)\<close> and \<^verbatim>\<open>changes.added.map(...)\<close>: one entry with the marker
  and the snapshot per element.\<close>

fun snapshots :: "string \<Rightarrow> jsval list \<Rightarrow> type_descriptor \<Rightarrow> string list \<Rightarrow> (jsval list) outcome" where
  "snapshots marker [] descriptor lg = Done [] lg"
| "snapshots marker (item # items) descriptor lg =
     (case processComplexTypeTransformations [] item descriptor lg of
        Thrown e lg' \<Rightarrow> Thrown e lg'
      | Done transformedItem lg' \<Rightarrow>
          (case snapshots marker items descriptor lg' of
             Thrown e lg'' \<Rightarrow> Thrown e lg''
           | Done rest lg'' \<Rightarrow> Done (JObj [(marker, JObj transformedItem)] # rest) lg''))"

text \<open>Lines 109 to 130: the entries for the elements without a counterpart.\<close>

definition emit_unmatched ::
  "changes \<Rightarrow> jsobj \<Rightarrow> string \<Rightarrow> type_descriptor \<Rightarrow> string list \<Rightarrow> jsobj outcome" where
  "emit_unmatched chs changeResult propertyDescriptorName propertyTypeDescriptor lg =
     (if removed chs \<noteq> [] \<or> added chs \<noteq> [] then
        if falsy (lookup changeResult propertyDescriptorName) then
          (case snapshots ''-'' (removed chs) propertyTypeDescriptor lg of
             Thrown e lg' \<Rightarrow> Thrown e lg'
           | Done rs lg' \<Rightarrow>
               (case snapshots ''+'' (added chs) propertyTypeDescriptor lg' of
                  Thrown e lg'' \<Rightarrow> Thrown e lg''
                | Done as lg'' \<Rightarrow>
                    Done (set_prop changeResult propertyDescriptorName (JArr (rs @ as))) lg''))
        else Done changeResult lg
      else Done changeResult lg)"

text \<open>Lines 138 to 156: the entry of a matched pair whose own diff is not empty, made of
  the primary key values of the \<^verbatim>\<open>from\<close> element and then the changed properties.\<close>

definition push_change :: "jsobj \<Rightarrow> string \<Rightarrow> string list \<Rightarrow> jsval \<Rightarrow> jsobj \<Rightarrow> jsobj" where
  "push_change changeResult propertyDescriptorName primaryKeys changeFrom itemChangeResult =
     (let withKeys = foldl (\<lambda>acc primaryKey. set_prop acc primaryKey (get_prop changeFrom primaryKey))
                       [] primaryKeys;
          itemChangeResultFinal = foldl (\<lambda>acc key. set_prop acc key (lookup itemChangeResult key))
                       withKeys (map fst itemChangeResult);
          changeResult1 = (if falsy (lookup changeResult propertyDescriptorName)
                           then set_prop changeResult propertyDescriptorName (JArr [])
                           else changeResult)
      in if isArray (lookup changeResult1 propertyDescriptorName)
         then set_prop changeResult1 propertyDescriptorName
                (JArr (elems (lookup changeResult1 propertyDescriptorName) @ [JObj itemChangeResultFinal]))
         else changeResult1)"

text \<open>Lines 172 to 205: a primitive property.\<close>

definition diff_primitive :: "jsobj \<Rightarrow> string \<Rightarrow> jsval \<Rightarrow> jsval \<Rightarrow> jsobj" where
  "diff_primitive changeResult propertyDescriptorName fromPropertyValue toPropertyValue =
     (if isArray fromPropertyValue \<and> isArray toPropertyValue then
        (let matched = intersection (map JSON_stringify (elems fromPropertyValue))
                                    (map JSON_stringify (elems toPropertyValue));
             removedItems = filter (\<lambda>item. JSON_stringify item \<notin> set matched) (elems fromPropertyValue);
             addedItems = filter (\<lambda>item. JSON_stringify item \<notin> set matched) (elems toPropertyValue)
         in if removedItems \<noteq> [] \<or> addedItems \<noteq> [] then
              set_prop changeResult propertyDescriptorName
                (JArr ((if removedItems \<noteq> [] then [JObj [(''-'', JArr (sortBy removedItems))]] else [])
                     @ (if addedItems \<noteq> [] then [JObj [(''+'', JArr (sortBy addedItems))]] else [])))
            else changeResult)
      else if \<not> isEqual fromPropertyValue toPropertyValue then
        set_prop changeResult propertyDescriptorName
          (JObj [(''-'', fromPropertyValue), (''+'', toPropertyValue)])
      else changeResult)"

text \<open>\<^verbatim>\<open>_processChanges\<close>: \<open>changes_keys\<close> is its loop over the sorted property keys (a
  \<^verbatim>\<open>return\<close> in the loop body ends it), \<open>changes_inBoth\<close> the loop over the matched pairs.
  The source computes \<^verbatim>\<open>primaryKeys\<close> at the top of the loop body; \<^verbatim>\<open>_toArray\<close> has no
  effect, and the model calls it where the value is first used.\<close>

function (sequential)
  processChanges ::
    "jsobj \<Rightarrow> jsval \<Rightarrow> jsval \<Rightarrow> type_descriptor \<Rightarrow> string list \<Rightarrow> jsobj outcome"
  and changes_keys ::
    "string list \<Rightarrow> jsobj \<Rightarrow> jsval \<Rightarrow> jsval \<Rightarrow> type_descriptor \<Rightarrow> string list \<Rightarrow> jsobj outcome"
  and changes_inBoth ::
    "(string \<times> jsval \<times> jsval) list \<Rightarrow> jsobj \<Rightarrow> string \<Rightarrow> string list \<Rightarrow> type_descriptor
       \<Rightarrow> string list \<Rightarrow> jsobj outcome"
where
  "processChanges changeResult from to descriptor lg =
     changes_keys (sort (map fst (td_properties descriptor))) changeResult from to descriptor lg"
| "changes_keys [] changeResult from to descriptor lg = Done changeResult lg"
| "changes_keys (key # keys) changeResult from to descriptor lg =
     (case map_of (td_properties descriptor) key of
        None \<Rightarrow> Thrown TypeError lg
      | Some propertyDescriptor \<Rightarrow>
          if isNil from \<or> isNil to then Thrown TypeError lg
          else
          (case pd_name propertyDescriptor of
             None \<Rightarrow> Done changeResult (lg @ [msg_name descriptor])
           | Some propertyDescriptorName \<Rightarrow>
               if propertyDescriptorName = [] then Done changeResult (lg @ [msg_name descriptor])
               else if pd_type propertyDescriptor = TComplex then
                 (case pd_descriptor propertyDescriptor of
                    None \<Rightarrow> Done changeResult (lg @ [msg_descriptor descriptor propertyDescriptorName])
                  | Some propertyTypeDescriptor \<Rightarrow>
                      (case toArray (td_primaryKey propertyTypeDescriptor) of
                         None \<Rightarrow> Done changeResult (lg @ [msg_primaryKey descriptor propertyDescriptorName])
                       | Some primaryKeys \<Rightarrow>
                           if isArray (get_prop from key) \<and> isArray (get_prop to key) then
                             (case getChanges (elems (get_prop from key)) (elems (get_prop to key)) primaryKeys of
                                Inl e \<Rightarrow> Thrown e lg
                              | Inr chs \<Rightarrow>
                                  (case emit_unmatched chs changeResult propertyDescriptorName
                                          propertyTypeDescriptor lg of
                                     Thrown e lg' \<Rightarrow> Thrown e lg'
                                   | Done changeResult' lg' \<Rightarrow>
                                       (case changes_inBoth (inBoth chs) changeResult' propertyDescriptorName
                                               primaryKeys propertyTypeDescriptor lg' of
                                          Thrown e lg'' \<Rightarrow> Thrown e lg''
                                        | Done changeResult'' lg'' \<Rightarrow>
                                            changes_keys keys changeResult'' from to descriptor lg'')))
                           else if \<not> isNil (get_prop from key) \<or> \<not> isNil (get_prop to key)
                             then Thrown (Error (msg_non_array propertyDescriptorName)) lg
                           else changes_keys keys changeResult from to descriptor lg))
               else
                 changes_keys keys
                   (diff_primitive changeResult propertyDescriptorName
                      (get_prop from propertyDescriptorName) (get_prop to propertyDescriptorName))
                   from to descriptor lg))"
| "changes_inBoth [] changeResult propertyDescriptorName primaryKeys descriptor lg = Done changeResult lg"
| "changes_inBoth ((keyValue, changeFrom, changeTo) # rest) changeResult propertyDescriptorName primaryKeys
      descriptor lg =
     (case processChanges [] changeFrom changeTo descriptor lg of
        Thrown e lg' \<Rightarrow> Thrown e lg'
      | Done itemChangeResult lg' \<Rightarrow>
          changes_inBoth rest
            (if length itemChangeResult > 0
             then push_change changeResult propertyDescriptorName primaryKeys changeFrom itemChangeResult
             else changeResult)
            propertyDescriptorName primaryKeys descriptor lg')"
  by pat_completeness auto

termination
  apply (relation "inv_image (less_than <*lex*> less_than <*lex*> less_than)
     (\<lambda>x. case x of
        Inl (changeResult, from, to, descriptor, lg) \<Rightarrow> (size descriptor, 1, 0)
      | Inr (Inl (keys, changeResult, from, to, descriptor, lg)) \<Rightarrow> (size descriptor, 0, length keys)
      | Inr (Inr (pairs, changeResult, n, pks, descriptor, lg)) \<Rightarrow> (size descriptor, 2, length pairs))")
       apply (auto simp: size_nested)
  done

definition diff :: "jsval \<Rightarrow> jsval \<Rightarrow> type_descriptor \<Rightarrow> jsobj outcome" where
  "diff from to descriptor = processChanges [] from to descriptor []"

section \<open>Properties of the array reconciler\<close>

text \<open>The canonical key of an element, as a closed expression: for each primary key name
  in sorted order, the name, a colon, the lowercased string of the value (the empty
  string for a falsy value) and a semicolon.\<close>

definition key_piece :: "jsval \<Rightarrow> string \<Rightarrow> string" where
  "key_piece item n = n @ '':'' @ toLowerCase (toString (or_empty (get_prop item n))) @ '';''"

definition canonical_key :: "jsval \<Rightarrow> string list \<Rightarrow> string" where
  "canonical_key item primaryKeys = concat (map (key_piece item) (sort primaryKeys))"

lemma getPrimaryKeyValue_loop_Inr:
  "\<not> isNil item \<Longrightarrow>
   getPrimaryKeyValue_loop item ks acc = Inr (acc @ concat (map (key_piece item) ks))"
  by (induction ks arbitrary: acc) (simp_all add: key_piece_def)

lemma getPrimaryKeyValue_loop_nil:
  "isNil item \<Longrightarrow> getPrimaryKeyValue_loop item ks acc = (if ks = [] then Inr acc else Inl TypeError)"
  by (cases ks) simp_all

lemma sort_eq_Nil [simp]: "(sort xs = []) = (xs = [])"
  using length_sort[of "\<lambda>x. x" xs] by (metis length_0_conv)

lemma getPrimaryKeyValue_eq:
  "getPrimaryKeyValue item pks =
     (if isNil item \<and> pks \<noteq> [] then Inl TypeError else Inr (canonical_key item pks))"
proof (cases "isNil item")
  case True
  then show ?thesis
    by (auto simp: getPrimaryKeyValue_def getPrimaryKeyValue_loop_nil canonical_key_def)
next
  case False
  then show ?thesis
    by (simp add: getPrimaryKeyValue_def getPrimaryKeyValue_loop_Inr canonical_key_def)
qed

definition keyable :: "string list \<Rightarrow> jsval \<Rightarrow> bool" where
  "keyable pks item = (\<not> isNil item \<or> pks = [])"

lemma getPrimaryKeyValue_keyable:
  "keyable pks item \<Longrightarrow> getPrimaryKeyValue item pks = Inr (canonical_key item pks)"
  by (auto simp: getPrimaryKeyValue_eq keyable_def)

lemma getPrimaryKeyValue_not_keyable:
  "\<not> keyable pks item \<Longrightarrow> getPrimaryKeyValue item pks = Inl TypeError"
  by (auto simp: getPrimaryKeyValue_eq keyable_def)

lemma getPrimaryKeyValues_loop_eq:
  "getPrimaryKeyValues_loop items pks acc =
     (if list_all (keyable pks) items then Inr (acc @ map (\<lambda>i. canonical_key i pks) items)
      else Inl TypeError)"
proof (induction items arbitrary: acc)
  case Nil
  then show ?case by simp
next
  case (Cons a items)
  show ?case
  proof (cases "keyable pks a")
    case True
    then show ?thesis using Cons.IH by (simp add: getPrimaryKeyValue_keyable)
  next
    case False
    then show ?thesis by (simp add: getPrimaryKeyValue_not_keyable)
  qed
qed

lemma getPrimaryKeyValues_eq:
  "getPrimaryKeyValues items pks =
     (if list_all (keyable pks) items then Inr (sort (map (\<lambda>i. canonical_key i pks) items))
      else Inl TypeError)"
  by (simp add: getPrimaryKeyValues_def getPrimaryKeyValues_loop_eq)

lemma intersection_acc_set:
  "set (intersection_acc res xs ys) = set res \<union> (set xs \<inter> set ys)"
  by (induction xs arbitrary: res) auto

lemma intersection_set [simp]: "set (intersection xs ys) = set xs \<inter> set ys"
  by (simp add: intersection_def intersection_acc_set)

lemma intersection_acc_distinct:
  "distinct res \<Longrightarrow> distinct (intersection_acc res xs ys)"
  by (induction xs arbitrary: res) auto

lemma intersection_distinct [simp]: "distinct (intersection xs ys)"
  by (simp add: intersection_def intersection_acc_distinct)




lemma filter_items_eq:
  "list_all (\<lambda>x. \<exists>b. p x = Inr b) xs \<Longrightarrow>
   filter_items p xs = Inr (filter (\<lambda>x. p x = Inr True) xs)"
  by (induction xs) auto

lemma filter_items_unmatched:
  "list_all (keyable pks) xs \<Longrightarrow>
   filter_items (unmatched matched pks) xs = Inr (filter (\<lambda>i. canonical_key i pks \<notin> set matched) xs)"
  by (induction xs) (auto simp: unmatched_def getPrimaryKeyValue_keyable)

fun first_with :: "string list \<Rightarrow> string \<Rightarrow> jsval list \<Rightarrow> jsval" where
  "first_with pks k [] = JUndefined"
| "first_with pks k (x # xs) = (if canonical_key x pks = k then x else first_with pks k xs)"

lemma find_item_has_key:
  "list_all (keyable pks) xs \<Longrightarrow> find_item (has_key pks k) xs = Inr (first_with pks k xs)"
  by (induction xs) (auto simp: has_key_def getPrimaryKeyValue_keyable)

lemma match_pairs_eq:
  "list_all (keyable pks) fs \<Longrightarrow> list_all (keyable pks) ts \<Longrightarrow>
   match_pairs fs ts pks ks =
     (if \<forall>k \<in> set ks. \<not> falsy (first_with pks k fs) \<and> \<not> falsy (first_with pks k ts)
      then Inr (map (\<lambda>k. (k, first_with pks k fs, first_with pks k ts)) ks)
      else Inl (Error uh_oh))"
  by (induction ks) (auto simp: find_item_has_key)

definition matched_keys :: "jsval list \<Rightarrow> jsval list \<Rightarrow> string list \<Rightarrow> string list" where
  "matched_keys fs ts pks =
     intersection (sort (map (\<lambda>i. canonical_key i pks) fs)) (sort (map (\<lambda>i. canonical_key i pks) ts))"

lemma set_matched_keys:
  "set (matched_keys fs ts pks) = (\<lambda>i. canonical_key i pks) ` set fs \<inter> (\<lambda>i. canonical_key i pks) ` set ts"
  by (simp add: matched_keys_def)

lemma getChanges_eq:
  "getChanges fs ts pks =
     (if \<not> (list_all (keyable pks) fs \<and> list_all (keyable pks) ts) then Inl TypeError
      else if \<forall>k \<in> set (matched_keys fs ts pks).
                \<not> falsy (first_with pks k fs) \<and> \<not> falsy (first_with pks k ts)
      then Inr (Changes
                 (filter (\<lambda>i. canonical_key i pks \<notin> set (matched_keys fs ts pks)) fs)
                 (filter (\<lambda>i. canonical_key i pks \<notin> set (matched_keys fs ts pks)) ts)
                 (map (\<lambda>k. (k, first_with pks k fs, first_with pks k ts)) (matched_keys fs ts pks)))
      else Inl (Error uh_oh))"
  by (auto simp: getChanges_def getPrimaryKeyValues_eq filter_items_unmatched match_pairs_eq
                 matched_keys_def Let_def)




section \<open>The motivating example\<close>

text \<open>\<^verbatim>\<open>CarTypeDescriptorRegistry\<close> and the data of \<^verbatim>\<open>ObjectDiffExample.diff\<close>.\<close>

definition automobileFeature :: type_descriptor where
  "automobileFeature = create (TypeDescriptor ''AutomobileFeature''
     [(''id'', string), (''name'', string), (''optional'', boolean), (''cost'', number),
      (''tags'', string)]
     (Some (PkSingle ''id'')))"

definition automobile :: type_descriptor where
  "automobile = create (TypeDescriptor ''Automobile''
     [(''id'', string), (''make'', string), (''model'', string), (''year'', number),
      (''msrp'', number), (''features'', complex automobileFeature), (''salePrice'', number)]
     (Some (PkSingle ''id'')))"

definition automobileCollection :: type_descriptor where
  "automobileCollection = create (TypeDescriptor ''AutomobileCollection''
     [(''cars'', complex automobile), (''trucks'', complex automobile)]
     None)"

definition feature_1 :: jsval where
  "feature_1 = JObj [(''id'', JStr ''feature_1''), (''name'', JStr ''Power Windows''),
     (''optional'', JBool True), (''cost'', JNum 2000), (''tags'', JArr [JStr ''tag_1''])]"

definition addedCar :: jsval where
  "addedCar = JObj [(''id'', JStr ''added_car''), (''make'', JStr ''ford''),
     (''model'', JStr ''fiesta''), (''year'', JNum 2022), (''msrp'', JNum 15000),
     (''features'', JArr [feature_1])]"

definition removedCar :: jsval where
  "removedCar = JObj [(''id'', JStr ''removed_car''), (''make'', JStr ''honda''),
     (''model'', JStr ''civic''), (''year'', JNum 2022), (''msrp'', JNum 15000),
     (''features'', JArr [feature_1])]"

definition modifiedCar :: jsval where
  "modifiedCar = JObj [(''id'', JStr ''modified_car''), (''make'', JStr ''toyota''),
     (''model'', JStr ''corolla''), (''year'', JNum 2022), (''msrp'', JNum 15000),
     (''features'', JArr [feature_1])]"

definition truck :: jsval where
  "truck = JObj [(''id'', JStr ''truck_1''), (''make'', JStr ''toyota''),
     (''model'', JStr ''tacoma''), (''year'', JNum 2022), (''msrp'', JNum 15000),
     (''features'', JArr [feature_1])]"

text \<open>\<^verbatim>\<open>{...modifiedCar, msrp: 16000, salePrice: 14000}\<close>.\<close>

definition modifiedCar_to :: jsval where
  "modifiedCar_to = JObj [(''id'', JStr ''modified_car''), (''make'', JStr ''toyota''),
     (''model'', JStr ''corolla''), (''year'', JNum 2022), (''msrp'', JNum 16000),
     (''features'', JArr [feature_1]), (''salePrice'', JNum 14000)]"

definition example_from :: jsval where
  "example_from = JObj [(''cars'', JArr [removedCar, modifiedCar]), (''trucks'', JArr [truck])]"

definition example_to :: jsval where
  "example_to = JObj [(''cars'', JArr [addedCar, modifiedCar_to]), (''trucks'', JArr [])]"

text \<open>The snapshot of a car of the example: its properties in sorted order, the feature
  rendered in the same way, and no \<^verbatim>\<open>salePrice\<close>.\<close>

definition feature_snapshot :: jsval where
  "feature_snapshot = JObj [(''cost'', JNum 2000), (''id'', JStr ''feature_1''),
     (''name'', JStr ''Power Windows''), (''optional'', JBool True),
     (''tags'', JArr [JStr ''tag_1''])]"

definition car_snapshot :: "string \<Rightarrow> string \<Rightarrow> string \<Rightarrow> jsval" where
  "car_snapshot car_id make model = JObj [(''features'', JArr [feature_snapshot]),
     (''id'', JStr car_id), (''make'', JStr make), (''model'', JStr model),
     (''msrp'', JNum 15000), (''year'', JNum 2022)]"

section \<open>Properties of the walk\<close>

text \<open>The message that the loop body logs for a property with a configuration error
  (\<open>None\<close> for a property without one).\<close>

definition config_error :: "type_descriptor \<Rightarrow> string \<Rightarrow> string option" where
  "config_error descriptor key =
     (case map_of (td_properties descriptor) key of
        None \<Rightarrow> None
      | Some propertyDescriptor \<Rightarrow>
          (case pd_name propertyDescriptor of
             None \<Rightarrow> Some (msg_name descriptor)
           | Some n \<Rightarrow>
               if n = [] then Some (msg_name descriptor)
               else if pd_type propertyDescriptor = TComplex then
                 (case pd_descriptor propertyDescriptor of
                    None \<Rightarrow> Some (msg_descriptor descriptor n)
                  | Some propertyTypeDescriptor \<Rightarrow>
                      (case toArray (td_primaryKey propertyTypeDescriptor) of
                         None \<Rightarrow> Some (msg_primaryKey descriptor n)
                       | Some primaryKeys \<Rightarrow> None))
               else None))"

lemma changes_keys_config_error:
  assumes "config_error d key = Some msg" "\<not> isNil f" "\<not> isNil t"
  shows "changes_keys (key # keys) cr f t d lg = Done cr (lg @ [msg])"
  using assms
  by (auto simp: config_error_def split: option.splits if_splits)

lemma config_ok_cases:
  assumes "config_error d k = None"
  obtains (absent) "map_of (td_properties d) k = None"
  | (primitive) pd n where "map_of (td_properties d) k = Some pd" "pd_name pd = Some n" "n \<noteq> []"
      "pd_type pd \<noteq> TComplex"
  | (complex) pd n ptd pks where "map_of (td_properties d) k = Some pd" "pd_name pd = Some n" "n \<noteq> []"
      "pd_type pd = TComplex" "pd_descriptor pd = Some ptd" "toArray (td_primaryKey ptd) = Some pks"
proof (cases "map_of (td_properties d) k")
  case None
  then show ?thesis by (rule absent)
next
  case (Some pd)
  with assms obtain n where n: "pd_name pd = Some n" "n \<noteq> []"
    by (auto simp: config_error_def split: option.splits if_splits)
  show ?thesis
  proof (cases "pd_type pd = TComplex")
    case False
    with Some n show ?thesis by (intro primitive)
  next
    case True
    with assms Some n obtain ptd pks where
      "pd_descriptor pd = Some ptd" "toArray (td_primaryKey ptd) = Some pks"
      by (auto simp: config_error_def split: option.splits if_splits)
    with Some n True show ?thesis by (intro complex)
  qed
qed

lemma changes_keys_Cons:
  assumes "config_error d k = None"
  shows "changes_keys (k # keys) cr f t d lg =
           (case changes_keys [k] cr f t d lg of
              Done cr' lg' \<Rightarrow> changes_keys keys cr' f t d lg'
            | Thrown e lg' \<Rightarrow> Thrown e lg')"
  using assms
proof (cases rule: config_ok_cases)
  case absent
  then show ?thesis by simp
next
  case (primitive pd n)
  then show ?thesis by simp
next
  case (complex pd n ptd pks)
  then show ?thesis by (simp split: sum.splits outcome.splits)
qed

lemma changes_keys_append:
  assumes "\<forall>k \<in> set pre. config_error d k = None"
  shows "changes_keys (pre @ post) cr f t d lg =
           (case changes_keys pre cr f t d lg of
              Done cr' lg' \<Rightarrow> changes_keys post cr' f t d lg'
            | Thrown e lg' \<Rightarrow> Thrown e lg')"
  using assms
proof (induction pre arbitrary: cr lg)
  case Nil
  then show ?case by simp
next
  case (Cons k pre)
  then have IH: "\<And>cr lg. changes_keys (pre @ post) cr f t d lg =
           (case changes_keys pre cr f t d lg of
              Done cr' lg' \<Rightarrow> changes_keys post cr' f t d lg'
            | Thrown e lg' \<Rightarrow> Thrown e lg')" by simp
  from Cons.prems have ok: "config_error d k = None" by simp
  have "changes_keys ((k # pre) @ post) cr f t d lg =
          (case changes_keys [k] cr f t d lg of
              Done cr' lg' \<Rightarrow> changes_keys (pre @ post) cr' f t d lg'
            | Thrown e lg' \<Rightarrow> Thrown e lg')"
    using changes_keys_Cons[OF ok, of "pre @ post"] by simp
  also have "\<dots> = (case changes_keys (k # pre) cr f t d lg of
              Done cr' lg' \<Rightarrow> changes_keys post cr' f t d lg'
            | Thrown e lg' \<Rightarrow> Thrown e lg')"
    unfolding changes_keys_Cons[OF ok, of pre] IH
    by (cases "changes_keys [k] cr f t d lg") simp_all
  finally show ?case .
qed

lemma insort_val_JStr: "insort_val (JStr s) (map JStr ss) = map JStr (insort s ss)"
  by (induction ss) (auto simp: compareAscending_def js_less_def)

lemma sortBy_JStr: "sortBy (map JStr ss) = map JStr (sort ss)"
  by (induction ss) (simp_all add: sortBy_def insort_val_JStr)

lemma insort_val_JNum: "insort_val (JNum n) (map JNum ns) = map JNum (insort n ns)"
  by (induction ns) (auto simp: compareAscending_def js_less_def)

lemma sortBy_JNum: "sortBy (map JNum ns) = map JNum (sort ns)"
  by (induction ns) (simp_all add: sortBy_def insort_val_JNum)

lemma diff_primitive_arrays:
  "diff_primitive cr n (JArr xs) (JArr ys) =
     (let removedItems = filter (\<lambda>x. JSON_stringify x \<notin> JSON_stringify ` set ys) xs;
          addedItems = filter (\<lambda>y. JSON_stringify y \<notin> JSON_stringify ` set xs) ys
      in if removedItems = [] \<and> addedItems = [] then cr
         else set_prop cr n
                (JArr ((if removedItems = [] then [] else [JObj [(''-'', JArr (sortBy removedItems))]])
                     @ (if addedItems = [] then [] else [JObj [(''+'', JArr (sortBy addedItems))]]))))"
proof -
  have r: "filter (\<lambda>item. JSON_stringify item \<in> JSON_stringify ` set xs \<longrightarrow>
                          JSON_stringify item \<notin> JSON_stringify ` set ys) xs
           = filter (\<lambda>x. JSON_stringify x \<notin> JSON_stringify ` set ys) xs"
    by (rule filter_cong) auto
  have a: "filter (\<lambda>item. JSON_stringify item \<in> JSON_stringify ` set xs \<longrightarrow>
                          JSON_stringify item \<notin> JSON_stringify ` set ys) ys
           = filter (\<lambda>y. JSON_stringify y \<notin> JSON_stringify ` set xs) ys"
    by (rule filter_cong) auto
  show ?thesis
    by (simp add: diff_primitive_def Let_def r a)
qed

definition order_item :: type_descriptor where
  "order_item = create (TypeDescriptor ''OrderItem'' [(''sku'', string)] None)"

definition order :: type_descriptor where
  "order = create (TypeDescriptor ''Order''
     [(''customer'', string), (''items'', complex order_item), (''total'', number)] None)"

definition order_without_items :: type_descriptor where
  "order_without_items = create (TypeDescriptor ''Order''
     [(''customer'', string), (''total'', number)] None)"

definition order_from :: jsval where
  "order_from = JObj [(''customer'', JStr ''ann''), (''items'', JArr []), (''total'', JNum 1)]"

definition order_to :: jsval where
  "order_to = JObj [(''customer'', JStr ''bob''), (''items'', JArr []), (''total'', JNum 2)]"

definition tagged :: type_descriptor where
  "tagged = create (TypeDescriptor ''Tagged'' [(''tags'', string)] None)"

subsection \<open>Structural compatibility, identity and reordering\<close>

text \<open>A value is structurally compatible with a descriptor when it is an object and each
  of its complex properties (with a type descriptor) is nil or an array of values
  compatible with that type descriptor.\<close>

fun is_obj :: "jsval \<Rightarrow> bool" where
  "is_obj (JObj ps) = True"
| "is_obj _ = False"

lemma size_member:
  "(key, pd) \<in> set ps \<Longrightarrow> pd_descriptor pd = Some d' \<Longrightarrow>
   size d' < Suc (size_list (size_prod (\<lambda>x. 0) size) ps)"
  by (induction ps) (auto, cases pd, auto)

function compatible :: "type_descriptor \<Rightarrow> jsval \<Rightarrow> bool" where
  "compatible d v =
     (is_obj v \<and>
      (\<forall>(key, pd) \<in> set (td_properties d).
         pd_type pd = TComplex \<longrightarrow>
         (case pd_descriptor pd of
            None \<Rightarrow> True
          | Some ptd \<Rightarrow>
              isNil (get_prop v key) \<or>
              (isArray (get_prop v key) \<and> (\<forall>e \<in> set (elems (get_prop v key)). compatible ptd e)))))"
  by pat_completeness auto

termination
proof (relation "measure (\<lambda>(d, v). size d)", goal_cases)
  case 1
  show ?case by simp
next
  case (2 d v kp key pd ptd e)
  then show ?case by (cases d) (auto dest: size_member)
qed

declare compatible.simps [simp del]

lemma compatibleD:
  assumes "compatible d v" "map_of (td_properties d) key = Some pd" "pd_type pd = TComplex"
    "pd_descriptor pd = Some ptd"
  shows "isNil (get_prop v key) \<or>
         (\<exists>xs. get_prop v key = JArr xs \<and> (\<forall>e \<in> set xs. compatible ptd e))"
proof -
  from assms(2) have "(key, pd) \<in> set (td_properties d)" by (rule map_of_SomeD)
  with assms(1,3,4) have "isNil (get_prop v key) \<or>
      (isArray (get_prop v key) \<and> (\<forall>e \<in> set (elems (get_prop v key)). compatible ptd e))"
    by (subst (asm) compatible.simps) fastforce
  then show ?thesis by (cases "get_prop v key") auto
qed

lemma compatible_is_obj: "compatible d v \<Longrightarrow> is_obj v"
  by (subst (asm) compatible.simps) simp

lemma is_obj_simps [simp]: "is_obj v \<Longrightarrow> \<not> isNil v" "is_obj v \<Longrightarrow> \<not> falsy v"
  by (cases v; simp)+

lemma first_with_in:
  "k \<in> (\<lambda>i. canonical_key i pks) ` set xs \<Longrightarrow> first_with pks k xs \<in> set xs"
  by (induction xs) auto

lemma first_with_key:
  "k \<in> (\<lambda>i. canonical_key i pks) ` set xs \<Longrightarrow> canonical_key (first_with pks k xs) pks = k"
  by (induction xs) auto

lemma getChanges_same_set:
  assumes "\<forall>e \<in> set xs. is_obj e" "set ys = set xs"
  shows "getChanges xs ys pks =
           Inr (Changes [] [] (map (\<lambda>k. (k, first_with pks k xs, first_with pks k ys))
                                    (matched_keys xs ys pks)))"
proof -
  have kx: "list_all (keyable pks) xs" and ky: "list_all (keyable pks) ys"
    using assms by (auto simp: list_all_iff keyable_def)
  have m: "set (matched_keys xs ys pks) = (\<lambda>i. canonical_key i pks) ` set xs"
    using assms(2) by (simp add: set_matched_keys)
  have t: "\<not> falsy (first_with pks k xs) \<and> \<not> falsy (first_with pks k ys)"
    if "k \<in> set (matched_keys xs ys pks)" for k
  proof -
    from that m have "first_with pks k xs \<in> set xs" by (simp add: first_with_in)
    moreover from that m assms(2) have "first_with pks k ys \<in> set xs"
      using first_with_in[of k pks ys] by simp
    ultimately show ?thesis using assms(1) by simp
  qed
  have r: "filter (\<lambda>i. canonical_key i pks \<notin> set (matched_keys xs ys pks)) xs = []"
    and a: "filter (\<lambda>i. canonical_key i pks \<notin> set (matched_keys xs ys pks)) ys = []"
    using m assms(2) by (auto simp: filter_empty_conv)
  show ?thesis
    using kx ky t by (simp add: getChanges_eq r a)
qed

lemma emit_unmatched_none:
  "removed chs = [] \<Longrightarrow> added chs = [] \<Longrightarrow> emit_unmatched chs cr n ptd lg = Done cr lg"
  by (simp add: emit_unmatched_def)

lemma changes_inBoth_same:
  assumes "\<And>cr x lg. compatible ptd x \<Longrightarrow> \<exists>lg'. processChanges cr x x ptd lg = Done cr lg'"
    and "\<forall>(k, a, b) \<in> set pairs. a = b \<and> compatible ptd a"
  shows "\<exists>lg'. changes_inBoth pairs cr n pks ptd lg = Done cr lg'"
  using assms(2)
proof (induction pairs arbitrary: lg)
  case Nil
  then show ?case by simp
next
  case (Cons p pairs)
  obtain k a b where p: "p = (k, a, b)" by (cases p)
  with Cons.prems have ab: "b = a" "compatible ptd a" by auto
  from assms(1)[OF ab(2), of "[]" lg] obtain lg1 where
    "processChanges [] a a ptd lg = Done [] lg1" by blast
  moreover from Cons.IH[of lg1] Cons.prems obtain lg' where
    "changes_inBoth pairs cr n pks ptd lg1 = Done cr lg'" by auto
  ultimately show ?case using p ab by simp
qed

lemma isEqual_refl: "b = a \<Longrightarrow> isEqual a b"
  by (induction a b rule: isEqual.induct) auto

lemma diff_primitive_same_set:
  "set ys = set xs \<Longrightarrow> diff_primitive cr n (JArr xs) (JArr ys) = cr"
  by (simp add: diff_primitive_arrays filter_empty_conv)

lemma diff_primitive_same: "diff_primitive cr n v v = cr"
proof (cases "isArray v")
  case True
  then obtain xs where "v = JArr xs" by (cases v) auto
  then show ?thesis by (simp add: diff_primitive_same_set)
next
  case False
  then show ?thesis by (simp add: diff_primitive_def isEqual_refl)
qed

lemma changes_keys_unchanged:
  assumes nested: "\<And>key pd ptd cr x lg. map_of (td_properties d) key = Some pd \<Longrightarrow>
              pd_descriptor pd = Some ptd \<Longrightarrow> compatible ptd x \<Longrightarrow>
              \<exists>lg'. processChanges cr x x ptd lg = Done cr lg'"
    and f: "compatible d f" and t: "is_obj t"
    and prim: "\<And>n. get_prop t n = get_prop f n \<or>
                 (\<exists>xs ys. get_prop f n = JArr xs \<and> get_prop t n = JArr ys \<and> set ys = set xs)"
    and cplx: "\<And>key pd ptd pks xs ys. map_of (td_properties d) key = Some pd \<Longrightarrow>
                 pd_type pd = TComplex \<Longrightarrow> pd_descriptor pd = Some ptd \<Longrightarrow>
                 toArray (td_primaryKey ptd) = Some pks \<Longrightarrow>
                 get_prop f key = JArr xs \<Longrightarrow> get_prop t key = JArr ys \<Longrightarrow>
                 (\<forall>k. first_with pks k ys = first_with pks k xs)"
    and keys: "set keys \<subseteq> fst ` set (td_properties d)"
  shows "\<exists>lg'. changes_keys keys cr f t d lg = Done cr lg'"
  using keys
proof (induction keys arbitrary: lg)
  case Nil
  then show ?case by simp
next
  case (Cons key keys)
  then have IH: "\<exists>lg'. changes_keys keys cr f t d lg = Done cr lg'" for lg by simp
  have nf: "\<not> isNil f" using f by (simp add: compatible_is_obj)
  have nt: "\<not> isNil t" using t by simp
  show ?case
  proof (cases "config_error d key")
    case (Some msg)
    show ?thesis unfolding changes_keys_config_error[OF Some nf nt] by blast
  next
    case None
    then show ?thesis
    proof (cases rule: config_ok_cases)
      case absent
      with Cons.prems show ?thesis by (simp add: map_of_eq_None_iff)
    next
      case (primitive pd n)
      have "diff_primitive cr n (get_prop f n) (get_prop t n) = cr"
        using prim[of n] by (auto simp: diff_primitive_same diff_primitive_same_set)
      then show ?thesis using primitive nf nt IH by simp
    next
      case (complex pd n ptd pks)
      from compatibleD[OF f complex(1,4,5)]
      consider (nil) "isNil (get_prop f key)"
        | (arr) xs where "get_prop f key = JArr xs" "\<forall>e \<in> set xs. compatible ptd e" by blast
      then show ?thesis
      proof cases
        case nil
        with prim[of key] have "isNil (get_prop t key)" by auto
        with nil have "\<not> isArray (get_prop f key)" by (cases "get_prop f key") auto
        with nil \<open>isNil (get_prop t key)\<close> show ?thesis
          using complex nf nt IH by simp
      next
        case arr
        with prim[of key] obtain ys where ys: "get_prop t key = JArr ys" "set ys = set xs"
          by auto
        from arr(2) have objs: "\<forall>e \<in> set xs. is_obj e" by (auto dest: compatible_is_obj)
        let ?pairs = "map (\<lambda>k. (k, first_with pks k xs, first_with pks k ys)) (matched_keys xs ys pks)"
        have g: "getChanges xs ys pks = Inr (Changes [] [] ?pairs)"
          by (rule getChanges_same_set[OF objs ys(2)])
        have same: "first_with pks k ys = first_with pks k xs" for k
          using cplx[OF complex(1,4,5,6) arr(1) ys(1)] by simp
        have pairs: "\<forall>(k, a, b) \<in> set ?pairs. a = b \<and> compatible ptd a"
          using same arr(2) first_with_in[of _ pks xs] by (auto simp: set_matched_keys)
        have ptd: "\<exists>lg'. processChanges cr x x ptd lg = Done cr lg'" if "compatible ptd x" for cr x lg
          using nested[OF complex(1,5) that] .
        from changes_inBoth_same[OF ptd pairs, of cr n pks lg] obtain lg1 where
          b: "changes_inBoth ?pairs cr n pks ptd lg = Done cr lg1" by blast
        from IH[of lg1] obtain lg' where "changes_keys keys cr f t d lg1 = Done cr lg'" by blast
        then show ?thesis
          using complex nf nt arr(1) ys(1) g b by (simp add: emit_unmatched_none)
      qed
    qed
  qed
qed

lemma processChanges_identity:
  "compatible d x \<Longrightarrow> \<exists>lg'. processChanges cr x x d lg = Done cr lg'"
proof (induction "size d" arbitrary: d x cr lg rule: less_induct)
  case less
  have nested: "\<exists>lg'. processChanges cr x x ptd lg = Done cr lg'"
    if "map_of (td_properties d) key = Some pd" "pd_descriptor pd = Some ptd" "compatible ptd x"
    for key pd ptd cr x lg
    using less.hyps[OF size_nested[OF that(1,2)] that(3)] .
  have "\<exists>lg'. changes_keys (sort (map fst (td_properties d))) cr x x d lg = Done cr lg'"
    by (rule changes_keys_unchanged[OF nested less.prems compatible_is_obj[OF less.prems]]) auto
  then show ?case by simp
qed

lemma lookup_set_prop: "lookup (set_prop ps k v) n = (if n = k then v else lookup ps n)"
  by (induction ps) auto

lemma first_with_unique:
  assumes "distinct (map (\<lambda>e. canonical_key e pks) xs)" "set ys = set xs"
  shows "first_with pks k ys = first_with pks k xs"
proof (cases "k \<in> (\<lambda>i. canonical_key i pks) ` set xs")
  case True
  then have x: "first_with pks k xs \<in> set xs" "canonical_key (first_with pks k xs) pks = k"
    by (simp_all add: first_with_in first_with_key)
  from True assms(2) have y: "first_with pks k ys \<in> set xs" "canonical_key (first_with pks k ys) pks = k"
    using first_with_in[of k pks ys] first_with_key[of k pks ys] by simp_all
  from assms(1) have "inj_on (\<lambda>e. canonical_key e pks) (set xs)"
    by (simp add: distinct_map)
  with x y show ?thesis by (metis inj_onD)
next
  case False
  have none: "first_with pks k zs = JUndefined" if "k \<notin> (\<lambda>i. canonical_key i pks) ` set zs" for zs
    using that by (induction zs) auto
  from False assms(2) show ?thesis by (simp add: none)
qed

subsection \<open>The snapshot of a compatible element\<close>

text \<open>A descriptor is well configured when no key occurs twice, every property name is
  bound to its key (as \<open>create\<close> does) and is not empty, and every complex property has a
  type descriptor.  \<open>rendered ptd es rs\<close> says that \<open>rs\<close> is the sequence of the snapshots
  of the elements \<open>es\<close> under \<open>ptd\<close>.\<close>

definition well_configured :: "type_descriptor \<Rightarrow> bool" where
  "well_configured d =
     (distinct (map fst (td_properties d)) \<and>
      (\<forall>(key, pd) \<in> set (td_properties d).
         pd_name pd = Some key \<and> key \<noteq> [] \<and> (pd_type pd = TComplex \<longrightarrow> pd_descriptor pd \<noteq> None)))"

definition rendered :: "type_descriptor \<Rightarrow> jsval list \<Rightarrow> jsval list \<Rightarrow> bool" where
  "rendered ptd es rs =
     list_all2 (\<lambda>e s. \<exists>lg lg' r. s = JObj r \<and> processComplexTypeTransformations [] e ptd lg = Done r lg')
       es rs"

lemma transform_items_total:
  assumes "\<And>x res lg. compatible ptd x \<Longrightarrow> \<exists>r lg'. processComplexTypeTransformations res x ptd lg = Done r lg'"
    and "\<forall>e \<in> set es. compatible ptd e"
  shows "\<exists>rs lg'. transform_items es acc ptd lg = Done rs lg'"
  using assms(2)
proof (induction es arbitrary: acc lg)
  case Nil
  then show ?case by simp
next
  case (Cons e es)
  then have "compatible ptd e" by simp
  from assms(1)[OF this, of "[]" lg] obtain r lg1 where
    "processComplexTypeTransformations [] e ptd lg = Done r lg1" by blast
  moreover from Cons obtain rs lg' where
    "transform_items es (acc @ [JObj r]) ptd lg1 = Done rs lg'" by fastforce
  ultimately show ?case by simp
qed

lemma transform_items_rendered:
  "transform_items es acc ptd lg = Done rs lg' \<Longrightarrow>
   \<exists>rs'. rs = acc @ rs' \<and> rendered ptd es rs'"
proof (induction es arbitrary: acc lg)
  case Nil
  then show ?case by (simp add: rendered_def)
next
  case (Cons e es)
  from Cons.prems obtain r lg1 where
    e: "processComplexTypeTransformations [] e ptd lg = Done r lg1"
    and rest: "transform_items es (acc @ [JObj r]) ptd lg1 = Done rs lg'"
    by (auto split: outcome.splits)
  from Cons.IH[OF rest] obtain rs' where "rs = (acc @ [JObj r]) @ rs'" "rendered ptd es rs'" by blast
  with e show ?case by (auto simp: rendered_def)
qed

lemma transform_keys_total:
  assumes nested: "\<And>key pd ptd res x lg. map_of (td_properties d) key = Some pd \<Longrightarrow>
              pd_descriptor pd = Some ptd \<Longrightarrow> compatible ptd x \<Longrightarrow>
              \<exists>r lg'. processComplexTypeTransformations res x ptd lg = Done r lg'"
    and e: "compatible d e"
    and keys: "set keys \<subseteq> fst ` set (td_properties d)"
  shows "\<exists>r lg'. transform_keys keys res e d lg = Done r lg'"
  using keys
proof (induction keys arbitrary: res lg)
  case Nil
  then show ?case by simp
next
  case (Cons key keys)
  then have IH: "\<exists>r lg'. transform_keys keys res e d lg = Done r lg'" for res lg by simp
  have ne: "\<not> isNil e" using e by (simp add: compatible_is_obj)
  from Cons.prems obtain pd where pd: "map_of (td_properties d) key = Some pd"
    by (cases "map_of (td_properties d) key") (auto simp: map_of_eq_None_iff)
  show ?case
  proof (cases "pd_name pd")
    case None
    with pd show ?thesis by simp
  next
    case (Some n)
    show ?thesis
    proof (cases "n = []")
      case True
      with pd Some show ?thesis by simp
    next
      case False
      show ?thesis
      proof (cases "pd_type pd = TComplex")
        case prim: False
        with pd Some False ne IH show ?thesis by (simp add: Let_def)
      next
        case True
        show ?thesis
        proof (cases "pd_descriptor pd")
          case None
          with pd Some False True ne show ?thesis by simp
        next
          case ptd: (Some ptd)
          from compatibleD[OF e pd True ptd]
          consider (nil) "isNil (get_prop e key)"
            | (arr) xs where "get_prop e key = JArr xs" "\<forall>x \<in> set xs. compatible ptd x" by blast
          then show ?thesis
          proof cases
            case nil
            then have "\<not> isArray (get_prop e key)" by (cases "get_prop e key") auto
            with nil pd Some False True ptd ne IH show ?thesis by simp
          next
            case arr
            have "\<exists>r lg'. processComplexTypeTransformations res x ptd lg = Done r lg'"
              if "compatible ptd x" for x res lg
              using nested[OF pd ptd that] .
            from transform_items_total[OF this arr(2), of "[]" lg] obtain rs lg1 where
              "transform_items xs [] ptd lg = Done rs lg1" by blast
            with arr(1) pd Some False True ptd ne IH show ?thesis by simp
          qed
        qed
      qed
    qed
  qed
qed

lemma snapshot_total:
  "compatible d e \<Longrightarrow> \<exists>r lg'. processComplexTypeTransformations res e d lg = Done r lg'"
proof (induction "size d" arbitrary: d e res lg rule: less_induct)
  case less
  have nested: "\<exists>r lg'. processComplexTypeTransformations res x ptd lg = Done r lg'"
    if "map_of (td_properties d) key = Some pd" "pd_descriptor pd = Some ptd" "compatible ptd x"
    for key pd ptd res x lg
    using less.hyps[OF size_nested[OF that(1,2)] that(3)] .
  have "\<exists>r lg'. transform_keys (sort (map fst (td_properties d))) res e d lg = Done r lg'"
    by (rule transform_keys_total[OF nested less.prems]) auto
  then show ?case by simp
qed

lemma set_prop_new: "key \<notin> fst ` set res \<Longrightarrow> set_prop res key v = res @ [(key, v)]"
  by (induction res) auto

definition snapshot_property :: "jsval \<Rightarrow> jsobj \<Rightarrow> string \<Rightarrow> property_descriptor \<Rightarrow> bool" where
  "snapshot_property e r key pd =
     (if pd_type pd = TComplex then
        (\<forall>ptd es. pd_descriptor pd = Some ptd \<longrightarrow> get_prop e key = JArr es \<longrightarrow>
           (if es = [] then key \<notin> fst ` set r
            else \<exists>rs. (key, JArr rs) \<in> set r \<and> rendered ptd es rs)) \<and>
        (isNil (get_prop e key) \<longrightarrow> key \<notin> fst ` set r)
      else if isNil (get_prop e key) then key \<notin> fst ` set r
      else (key, get_prop e key) \<in> set r)"

lemma snapshot_property_mono:
  assumes "snapshot_property e r1 key pd" "set r1 \<subseteq> set r2" "fst ` set r2 \<subseteq> fst ` set r1 \<union> K" "key \<notin> K"
  shows "snapshot_property e r2 key pd"
proof -
  have a: "key \<notin> fst ` set r2" if "key \<notin> fst ` set r1"
    using that assms(3,4) by blast
  have b: "(key, v) \<in> set r2" if "(key, v) \<in> set r1" for v
    using that assms(2) by blast
  show ?thesis
  proof (cases "pd_type pd = TComplex")
    case False
    with assms(1) show ?thesis
      unfolding snapshot_property_def by (auto simp: a b split: if_splits)
  next
    case True
    have "if es = [] then key \<notin> fst ` set r2
          else \<exists>rs. (key, JArr rs) \<in> set r2 \<and> rendered ptd es rs"
      if "pd_descriptor pd = Some ptd" "get_prop e key = JArr es" for ptd es
    proof (cases "es = []")
      case True
      with assms(1) \<open>pd_type pd = TComplex\<close> that show ?thesis
        unfolding snapshot_property_def by (simp add: a)
    next
      case False
      with assms(1) \<open>pd_type pd = TComplex\<close> that obtain rs where
        "(key, JArr rs) \<in> set r1" "rendered ptd es rs"
        unfolding snapshot_property_def by auto
      with False b show ?thesis by auto
    qed
    moreover have "key \<notin> fst ` set r2" if "isNil (get_prop e key)"
      using assms(1) True that unfolding snapshot_property_def by (simp add: a)
    ultimately show ?thesis using True unfolding snapshot_property_def by simp
  qed
qed

lemma transform_keys_result:
  assumes wc: "well_configured d"
    and "distinct keys" and "set keys \<subseteq> fst ` set (td_properties d)"
    and "set keys \<inter> fst ` set res = {}" and "distinct (map fst res)"
    and "transform_keys keys res e d lg = Done r lg'"
  shows "distinct (map fst r) \<and> set res \<subseteq> set r \<and> fst ` set r \<subseteq> fst ` set res \<union> set keys \<and>
         (\<forall>key \<in> set keys. \<forall>pd. map_of (td_properties d) key = Some pd \<longrightarrow> snapshot_property e r key pd)"
  using assms(2-)
proof (induction keys arbitrary: res lg)
  case Nil
  then show ?case by simp
next
  case (Cons key keys)
  from Cons.prems(2) obtain pd where pd: "map_of (td_properties d) key = Some pd"
    by (cases "map_of (td_properties d) key") (auto simp: map_of_eq_None_iff)
  then have mem: "(key, pd) \<in> set (td_properties d)" by (rule map_of_SomeD)
  with wc have n: "pd_name pd = Some key" "key \<noteq> []"
    and cd: "pd_type pd = TComplex \<Longrightarrow> pd_descriptor pd \<noteq> None"
    by (auto simp: well_configured_def)
  have ne: "\<not> isNil e" using Cons.prems(5) pd n by (auto split: if_splits)
  have fresh: "key \<notin> fst ` set res" "key \<notin> set keys" using Cons.prems(1,3) by auto
  \<comment> \<open>the state after this key, and what it says about this key\<close>
  have "\<exists>res' lg1. transform_keys keys res' e d lg1 = Done r lg' \<and>
          (res' = res \<or> (\<exists>v. res' = res @ [(key, v)])) \<and> snapshot_property e res' key pd"
  proof (cases "pd_type pd = TComplex")
    case False
    let ?v = "get_prop e key"
    let ?res' = "if \<not> isNil ?v then set_prop res key ?v else res"
    from Cons.prems(5) pd n ne False have "transform_keys keys ?res' e d lg = Done r lg'"
      by (simp add: Let_def)
    moreover have "snapshot_property e ?res' key pd"
      using False fresh(1) by (auto simp: snapshot_property_def set_prop_new)
    moreover have "?res' = res \<or> (\<exists>v. ?res' = res @ [(key, v)])"
      using fresh(1) by (auto simp: set_prop_new)
    ultimately show ?thesis by blast
  next
    case True
    with cd obtain ptd where ptd: "pd_descriptor pd = Some ptd" by auto
    show ?thesis
    proof (cases "isArray (get_prop e key)")
      case arr: True
      then obtain es where es: "get_prop e key = JArr es" by (cases "get_prop e key") auto
      from Cons.prems(5) pd n ne True ptd es obtain rs lg1 where
        items: "transform_items es [] ptd lg = Done rs lg1"
        and rest: "transform_keys keys (if rs \<noteq> [] then set_prop res key (JArr rs) else res) e d lg1 = Done r lg'"
        by (auto split: outcome.splits)
      from transform_items_rendered[OF items] have ren: "rendered ptd es rs" by simp
      then have len: "rs = [] \<longleftrightarrow> es = []"
        by (auto simp: rendered_def dest: list_all2_lengthD)
      let ?res' = "if rs \<noteq> [] then set_prop res key (JArr rs) else res"
      have "snapshot_property e ?res' key pd"
        using True ptd es ren len fresh(1)
        by (auto simp: snapshot_property_def set_prop_new)
      moreover have "?res' = res \<or> (\<exists>v. ?res' = res @ [(key, v)])"
        using fresh(1) by (auto simp: set_prop_new)
      ultimately show ?thesis using rest by blast
    next
      case False
      with Cons.prems(5) pd n ne True ptd have nil: "isNil (get_prop e key)"
        and rest: "transform_keys keys res e d lg = Done r lg'"
        by (auto split: if_splits)
      have "snapshot_property e res key pd"
        using True nil fresh(1) False by (auto simp: snapshot_property_def)
      with rest show ?thesis by blast
    qed
  qed
  then obtain res' lg1 where rest: "transform_keys keys res' e d lg1 = Done r lg'"
    and shape: "res' = res \<or> (\<exists>v. res' = res @ [(key, v)])"
    and here: "snapshot_property e res' key pd" by blast
  have disj: "(k, v) \<notin> set res" if "k \<in> set keys" for k v
  proof
    assume "(k, v) \<in> set res"
    then have "k \<in> fst ` set res" by (rule rev_image_eqI) simp
    with that Cons.prems(3) show False by auto
  qed
  have pre: "distinct keys" "set keys \<subseteq> fst ` set (td_properties d)"
    "set keys \<inter> fst ` set res' = {}" "distinct (map fst res')"
  proof -
    show "distinct keys" "set keys \<subseteq> fst ` set (td_properties d)"
      using Cons.prems(1,2) by simp_all
    show "set keys \<inter> fst ` set res' = {}"
      using shape fresh(2) disj by (auto simp: image_Un)
    show "distinct (map fst res')"
      using shape fresh(1) Cons.prems(4) by auto
  qed
  from Cons.IH[OF pre rest] have IH: "distinct (map fst r)" "set res' \<subseteq> set r"
    "fst ` set r \<subseteq> fst ` set res' \<union> set keys"
    "\<forall>k \<in> set keys. \<forall>pd. map_of (td_properties d) k = Some pd \<longrightarrow> snapshot_property e r k pd"
    by simp_all
  have sp: "snapshot_property e r key pd"
    by (rule snapshot_property_mono[OF here IH(2,3) fresh(2)])
  have "set res \<subseteq> set r" using shape IH(2) by auto
  moreover have "fst ` set r \<subseteq> fst ` set res \<union> set (key # keys)"
  proof -
    have "fst ` set res' \<subseteq> insert key (fst ` set res)" using shape by auto
    then have "fst ` set res' \<union> set keys \<subseteq> insert key (fst ` set res) \<union> set keys"
      by (rule Un_mono) simp
    with IH(3) have "fst ` set r \<subseteq> insert key (fst ` set res) \<union> set keys"
      by (rule order_trans)
    then show ?thesis by simp
  qed
  moreover have "\<forall>k \<in> set (key # keys). \<forall>pd. map_of (td_properties d) k = Some pd \<longrightarrow>
                   snapshot_property e r k pd"
  proof (intro ballI allI impI)
    fix k pd'
    assume k: "k \<in> set (key # keys)" and m: "map_of (td_properties d) k = Some pd'"
    show "snapshot_property e r k pd'"
    proof (cases "k = key")
      case True
      with m pd have "pd' = pd" by simp
      with True sp show ?thesis by simp
    next
      case False
      with k have "k \<in> set keys" by simp
      with IH(4) m show ?thesis by blast
    qed
  qed
  ultimately show ?case using IH(1) by blast
qed

subsection \<open>The walk after a configuration fault\<close>

text \<open>The loop over the matched pairs runs through a sequence of pairs piece by piece, and
  a walk that meets a property with a configuration fault returns what the properties
  before it have contributed, with the message added to the log.\<close>

lemma changes_inBoth_append:
  "changes_inBoth (P1 @ P2) cr n pks d lg =
     (case changes_inBoth P1 cr n pks d lg of
        Thrown e l \<Rightarrow> Thrown e l
      | Done cr1 lg1 \<Rightarrow> changes_inBoth P2 cr1 n pks d lg1)"
proof (induction P1 arbitrary: cr lg)
  case Nil
  show ?case by simp
next
  case (Cons p P1)
  obtain kv a b where p: "p = (kv, a, b)" by (cases p)
  show ?case
  proof (cases "processChanges [] a b d lg")
    case (Thrown e l)
    then show ?thesis unfolding p by (simp del: processChanges.simps)
  next
    case (Done r l)
    then show ?thesis unfolding p using Cons.IH by (simp del: processChanges.simps)
  qed
qed

lemma processChanges_config_error:
  assumes "sort (map fst (td_properties d)) = pre @ key # post"
    and "\<forall>k \<in> set pre. config_error d k = None"
    and "config_error d key = Some msg"
    and "\<not> isNil f" and "\<not> isNil t"
  shows "processChanges cr f t d lg =
           (case changes_keys pre cr f t d lg of
              Done changeResult lg' \<Rightarrow> Done changeResult (lg' @ [msg])
            | Thrown e lg' \<Rightarrow> Thrown e lg')"
  using assms(1) changes_keys_append[OF assms(2), of "key # post" cr f t lg]
    changes_keys_config_error[OF assms(3,4,5)]
  by (simp split: outcome.splits)

lemma changes_inBoth_config_error:
  assumes "sort (map fst (td_properties d)) = pre @ key # post"
    and "\<forall>k \<in> set pre. config_error d k = None"
    and "config_error d key = Some msg"
    and "\<not> isNil f" and "\<not> isNil t"
  shows "changes_inBoth (P1 @ (kv, f, t) # P2) cr n pks d lg =
           (case changes_inBoth P1 cr n pks d lg of
              Thrown e l \<Rightarrow> Thrown e l
            | Done cr1 lg1 \<Rightarrow>
                (case changes_keys pre [] f t d lg1 of
                   Thrown e l \<Rightarrow> Thrown e l
                 | Done r lg2 \<Rightarrow>
                     changes_inBoth P2
                       (if length r > 0 then push_change cr1 n pks f r else cr1)
                       n pks d (lg2 @ [msg])))"
  unfolding changes_inBoth_append changes_inBoth.simps processChanges_config_error[OF assms]
  by (simp split: outcome.splits)

lemma changes_keys_complex_arrays:
  assumes "map_of (td_properties D) K = Some pd" "pd_name pd = Some n" "n \<noteq> []"
    "pd_type pd = TComplex" "pd_descriptor pd = Some d" "toArray (td_primaryKey d) = Some pks"
    "\<not> isNil F" "\<not> isNil T" "isArray (get_prop F K)" "isArray (get_prop T K)"
  shows "changes_keys (K # keys) cr F T D lg =
           (case getChanges (elems (get_prop F K)) (elems (get_prop T K)) pks of
              Inl e \<Rightarrow> Thrown e lg
            | Inr chs \<Rightarrow>
                (case emit_unmatched chs cr n d lg of
                   Thrown e l \<Rightarrow> Thrown e l
                 | Done cr1 lg1 \<Rightarrow>
                     (case changes_inBoth (inBoth chs) cr1 n pks d lg1 of
                        Thrown e l \<Rightarrow> Thrown e l
                      | Done cr2 lg2 \<Rightarrow> changes_keys keys cr2 F T D lg2)))"
  using assms by simp


text \<open>A ledger of invoices: the element type \<^verbatim>\<open>Invoice\<close> has the primary key \<^verbatim>\<open>number\<close>, and
  its complex property \<^verbatim>\<open>lines\<close> has an element type without a primary key.\<close>

definition invoice :: type_descriptor where
  "invoice = create (TypeDescriptor ''Invoice''
     [(''amount'', number), (''lines'', complex order_item), (''number'', string), (''paid'', boolean)]
     (Some (PkSingle ''number'')))"

definition ledger :: type_descriptor where
  "ledger = create (TypeDescriptor ''Ledger''
     [(''invoices'', complex invoice), (''owner'', string)] None)"

definition invoice_entry :: "string \<Rightarrow> int \<Rightarrow> bool \<Rightarrow> jsval" where
  "invoice_entry no amount paid =
     JObj [(''number'', JStr no), (''amount'', JNum amount), (''lines'', JArr []),
           (''paid'', JBool paid)]"

definition ledger_from :: jsval where
  "ledger_from = JObj [(''invoices'', JArr [invoice_entry ''A1'' 10 False, invoice_entry ''A2'' 20 False]),
                       (''owner'', JStr ''ann'')]"

definition ledger_to :: jsval where
  "ledger_to = JObj [(''invoices'', JArr [invoice_entry ''A1'' 11 True, invoice_entry ''A2'' 20 True]),
                     (''owner'', JStr ''bob'')]"

subsection \<open>Shape faults of complex properties\<close>

text \<open>\<open>configured d\<close>: no property of \<open>d\<close>, or of a type descriptor below it, has a
  configuration fault.  \<open>shape_fault d f t\<close>: the walk of \<open>f\<close> and \<open>t\<close> under \<open>d\<close> meets, at
  some level, a complex property whose two values are neither both arrays nor both nil;
  below a property whose values are both arrays it looks at the matched pairs.
  \<open>walkable d f t\<close>: nothing else ends the walk: the two values are not nil, and for
  every complex property whose values are both arrays the reconciliation succeeds, the
  elements without a counterpart are structurally compatible with the element type (the
  snapshot projector has a shape check of its own), and the matched pairs are walkable
  in turn.\<close>

definition primaryKeys_of :: "type_descriptor \<Rightarrow> string list" where
  "primaryKeys_of d = (case toArray (td_primaryKey d) of None \<Rightarrow> [] | Some pks \<Rightarrow> pks)"







text \<open>\<open>verdict fault out\<close>: the outcome is the shape error when there is a fault, and a
  result otherwise.\<close>

definition verdict :: "bool \<Rightarrow> jsobj outcome \<Rightarrow> bool" where
  "verdict fault out =
     (if fault then \<exists>n lg. out = Thrown (Error (msg_non_array n)) lg else \<exists>r lg. out = Done r lg)"


lemma verdict_done: "out = Done r lg \<Longrightarrow> \<not> fault \<Longrightarrow> verdict fault out"
  by (auto simp: verdict_def)
















lemma isNil_not_isArray: "isNil v \<Longrightarrow> \<not> isArray v"
  by (cases v) simp_all



subsection \<open>Exchanging the two values\<close>


fun swap_entry :: "jsval \<Rightarrow> jsval" where
  "swap_entry (JObj [(m, v)]) = JObj [(if m = ''-'' then ''+'' else if m = ''+'' then ''-'' else m, v)]"
| "swap_entry v = v"

fun is_marker :: "string \<Rightarrow> jsval \<Rightarrow> bool" where
  "is_marker m (JObj [(m', v)]) = (m' = m)"
| "is_marker m _ = False"

definition swap_sequence :: "jsval list \<Rightarrow> jsval list" where
  "swap_sequence es =
     map swap_entry (filter (is_marker ''+'') es) @ map swap_entry (filter (is_marker ''-'') es)"

fun mirror_primitive :: "jsval \<Rightarrow> jsval" where
  "mirror_primitive (JObj [(m, x), (m', y)]) = JObj [(m, y), (m', x)]"
| "mirror_primitive (JArr es) = JArr (swap_sequence es)"
| "mirror_primitive v = v"

function mirror :: "type_descriptor \<Rightarrow> jsobj \<Rightarrow> jsobj"
  and mirror_value :: "type_descriptor \<Rightarrow> string \<Rightarrow> jsval \<Rightarrow> jsval" where
  "mirror d r = map (\<lambda>(n, v). (n, mirror_value d n v)) r"
| "mirror_value d n v =
     (case map_of (td_properties d) n of
        None \<Rightarrow> v
      | Some pd \<Rightarrow>
          if pd_type pd = TComplex then
            (case pd_descriptor pd of
               None \<Rightarrow> v
             | Some ptd \<Rightarrow>
                 if isArray v then
                   JArr (swap_sequence (elems v) @
                         map (\<lambda>e. case e of JObj fields \<Rightarrow> JObj (mirror ptd fields) | _ \<Rightarrow> e)
                             (filter (\<lambda>e. \<not> is_marker ''-'' e \<and> \<not> is_marker ''+'' e) (elems v)))
                 else v)
          else mirror_primitive v)"
  by pat_completeness auto

termination
  by (relation "inv_image (less_than <*lex*> less_than)
        (\<lambda>x. case x of Inl (d, r) \<Rightarrow> (size d, 1) | Inr (d, n, v) \<Rightarrow> (size d, 0::nat))")
     (auto simp: size_nested)

declare mirror.simps [simp del] mirror_value.simps [simp del]

function proper :: "type_descriptor \<Rightarrow> bool" where
  "proper d =
     (distinct (map fst (td_properties d)) \<and>
      (\<forall>(key, pd) \<in> set (td_properties d).
         pd_name pd = Some key \<and> key \<noteq> [] \<and> key \<noteq> ''-'' \<and> key \<noteq> ''+'' \<and>
         (pd_type pd = TComplex \<longrightarrow>
            (case pd_descriptor pd of
               None \<Rightarrow> False
             | Some ptd \<Rightarrow>
                 proper ptd \<and> toArray (td_primaryKey ptd) \<noteq> None \<and>
                 (\<forall>pk \<in> set (primaryKeys_of ptd).
                    case map_of (td_properties ptd) pk of
                      None \<Rightarrow> False
                    | Some kpd \<Rightarrow> pd_type kpd \<noteq> TComplex)))))"
  by pat_completeness auto

termination
proof (relation "measure size", goal_cases)
  case 1
  show ?case by simp
next
  case (2 d kp key pd ptd)
  then show ?case by (cases d) (auto dest: size_member)
qed

declare proper.simps [simp del]



lemma properD:
  assumes "proper d" "map_of (td_properties d) key = Some pd"
  shows "pd_name pd = Some key" "key \<noteq> []" "key \<noteq> ''-''" "key \<noteq> ''+''"
    "pd_type pd = TComplex \<Longrightarrow>
       \<exists>ptd pks. pd_descriptor pd = Some ptd \<and> proper ptd \<and> toArray (td_primaryKey ptd) = Some pks \<and>
         (\<forall>pk \<in> set pks. \<exists>kpd. map_of (td_properties ptd) pk = Some kpd \<and> pd_type kpd \<noteq> TComplex)"
proof -
  from assms(2) have mem: "(key, pd) \<in> set (td_properties d)" by (rule map_of_SomeD)
  from assms(1) have all: "\<forall>(key, pd) \<in> set (td_properties d).
         pd_name pd = Some key \<and> key \<noteq> [] \<and> key \<noteq> ''-'' \<and> key \<noteq> ''+'' \<and>
         (pd_type pd = TComplex \<longrightarrow>
            (case pd_descriptor pd of
               None \<Rightarrow> False
             | Some ptd \<Rightarrow>
                 proper ptd \<and> toArray (td_primaryKey ptd) \<noteq> None \<and>
                 (\<forall>pk \<in> set (primaryKeys_of ptd).
                    case map_of (td_properties ptd) pk of
                      None \<Rightarrow> False
                    | Some kpd \<Rightarrow> pd_type kpd \<noteq> TComplex)))"
    by (subst (asm) proper.simps) simp
  from all mem have here: "pd_name pd = Some key \<and> key \<noteq> [] \<and> key \<noteq> ''-'' \<and> key \<noteq> ''+'' \<and>
         (pd_type pd = TComplex \<longrightarrow>
            (case pd_descriptor pd of
               None \<Rightarrow> False
             | Some ptd \<Rightarrow>
                 proper ptd \<and> toArray (td_primaryKey ptd) \<noteq> None \<and>
                 (\<forall>pk \<in> set (primaryKeys_of ptd).
                    case map_of (td_properties ptd) pk of
                      None \<Rightarrow> False
                    | Some kpd \<Rightarrow> pd_type kpd \<noteq> TComplex)))"
    by blast
  then show "pd_name pd = Some key" "key \<noteq> []" "key \<noteq> ''-''" "key \<noteq> ''+''" by simp_all
  assume "pd_type pd = TComplex"
  with here obtain ptd where ptd: "pd_descriptor pd = Some ptd" "proper ptd"
    "toArray (td_primaryKey ptd) \<noteq> None"
    "\<forall>pk \<in> set (primaryKeys_of ptd).
        case map_of (td_properties ptd) pk of None \<Rightarrow> False | Some kpd \<Rightarrow> pd_type kpd \<noteq> TComplex"
    by (cases "pd_descriptor pd") auto
  then obtain pks where pks: "toArray (td_primaryKey ptd) = Some pks" by auto
  then have "primaryKeys_of ptd = pks" by (simp add: primaryKeys_of_def)
  with ptd(4) have "\<forall>pk \<in> set pks. \<exists>kpd. map_of (td_properties ptd) pk = Some kpd \<and> pd_type kpd \<noteq> TComplex"
    by (auto split: option.splits)
  with ptd pks show "\<exists>ptd pks. pd_descriptor pd = Some ptd \<and> proper ptd \<and> toArray (td_primaryKey ptd) = Some pks \<and>
         (\<forall>pk \<in> set pks. \<exists>kpd. map_of (td_properties ptd) pk = Some kpd \<and> pd_type kpd \<noteq> TComplex)"
    by blast
qed


lemma proper_config_ok:
  assumes "proper d" "map_of (td_properties d) key = Some pd"
  shows "config_error d key = None"
proof (cases "pd_type pd = TComplex")
  case True
  from properD(5)[OF assms True] properD(1,2)[OF assms] assms(2) True show ?thesis
    by (auto simp: config_error_def)
next
  case False
  with properD(1,2)[OF assms] assms(2) show ?thesis by (simp add: config_error_def)
qed




subsection \<open>Snapshots do not depend on the log\<close>







subsection \<open>The reconciler, with the two arrays exchanged\<close>







subsection \<open>A primitive property, with the two values exchanged\<close>






subsection \<open>The entry of a matched pair\<close>












lemma mirror_Nil [simp]: "mirror d [] = []"
  by (simp add: mirror.simps)

lemma mirror_Cons [simp]: "mirror d ((k, v) # r) = (k, mirror_value d k v) # mirror d r"
  by (simp add: mirror.simps)



lemma mirror_eq_Nil [simp]: "(mirror d r = []) = (r = [])"
  by (cases r) auto






















subsection \<open>The walk, with the two values exchanged\<close>






















section \<open>The claims\<close>

text \<open>
  C1. For the inputs of the motivating example, \<open>diff\<close> returns (and logs nothing): under
  \<^verbatim>\<open>cars\<close> one entry with the removed snapshot of \<^verbatim>\<open>removed_car\<close>, one entry with the added
  snapshot of \<^verbatim>\<open>added_car\<close>, and one entry keyed by the id of \<^verbatim>\<open>modified_car\<close> with \<^verbatim>\<open>msrp\<close>
  from 15000 to 16000 and \<^verbatim>\<open>salePrice\<close> added as 14000; under \<^verbatim>\<open>trucks\<close> one entry with
  the removed snapshot of \<^verbatim>\<open>truck_1\<close>; and nothing else.  The removed side of \<^verbatim>\<open>salePrice\<close>
  holds \<^verbatim>\<open>undefined\<close>, the value of a property that is not there, and the serialised
  result (what \<^verbatim>\<open>main.ts\<close> prints) is that of the record with no removed side at all.
\<close>

theorem example_diff:
  "diff example_from example_to automobileCollection =
     Done [(''cars'', JArr
              [JObj [(''-'', car_snapshot ''removed_car'' ''honda'' ''civic'')],
               JObj [(''+'', car_snapshot ''added_car'' ''ford'' ''fiesta'')],
               JObj [(''id'', JStr ''modified_car''),
                     (''msrp'', JObj [(''-'', JNum 15000), (''+'', JNum 16000)]),
                     (''salePrice'', JObj [(''-'', JUndefined), (''+'', JNum 14000)])]]),
           (''trucks'', JArr
              [JObj [(''-'', car_snapshot ''truck_1'' ''toyota'' ''tacoma'')]])]
          [] \<and>
   JSON_stringify (JObj (case diff example_from example_to automobileCollection of
                           Done changeResult lg \<Rightarrow> changeResult | Thrown e lg \<Rightarrow> [])) =
   JSON_stringify (JObj
          [(''cars'', JArr
              [JObj [(''-'', car_snapshot ''removed_car'' ''honda'' ''civic'')],
               JObj [(''+'', car_snapshot ''added_car'' ''ford'' ''fiesta'')],
               JObj [(''id'', JStr ''modified_car''),
                     (''msrp'', JObj [(''-'', JNum 15000), (''+'', JNum 16000)]),
                     (''salePrice'', JObj [(''+'', JNum 14000)])]]),
           (''trucks'', JArr
              [JObj [(''-'', car_snapshot ''truck_1'' ''toyota'' ''tacoma'')]])])"
proof -
  have r: "diff example_from example_to automobileCollection =
     Done [(''cars'', JArr
              [JObj [(''-'', car_snapshot ''removed_car'' ''honda'' ''civic'')],
               JObj [(''+'', car_snapshot ''added_car'' ''ford'' ''fiesta'')],
               JObj [(''id'', JStr ''modified_car''),
                     (''msrp'', JObj [(''-'', JNum 15000), (''+'', JNum 16000)]),
                     (''salePrice'', JObj [(''-'', JUndefined), (''+'', JNum 14000)])]]),
           (''trucks'', JArr
              [JObj [(''-'', car_snapshot ''truck_1'' ''toyota'' ''tacoma'')]])]
          []"
    by code_simp
  show ?thesis
    unfolding r by (simp add: JSON_stringify_def)
qed





text \<open>
  C4, as stated, fails.  In the descriptor \<open>order\<close> the complex property \<^verbatim>\<open>items\<close> has an
  element type without a primary key.  Both \<^verbatim>\<open>customer\<close> and \<^verbatim>\<open>total\<close> differ between the two
  orders, as the diff under the descriptor without \<^verbatim>\<open>items\<close> shows; under \<open>order\<close> the fault
  is logged and the result has the change of \<^verbatim>\<open>customer\<close> only: the sibling \<^verbatim>\<open>total\<close>,
  which comes after \<^verbatim>\<open>items\<close>, is not diffed.
\<close>

theorem config_error_skips_later_siblings:
  "diff order_from order_to order =
     Done [(''customer'', JObj [(''-'', JStr ''ann''), (''+'', JStr ''bob'')])]
          [msg_primaryKey order ''items''] \<and>
   diff order_from order_to order_without_items =
     Done [(''customer'', JObj [(''-'', JStr ''ann''), (''+'', JStr ''bob'')]),
           (''total'', JObj [(''-'', JNum 1), (''+'', JNum 2)])]
          []"
  by code_simp

text \<open>
  C4, amended.  When the walk of an object reaches a property with a configuration error
  (no bound name, a complex property without a type descriptor, or a complex property
  whose type descriptor has no primary key), it logs the fault through the logger's
  \<^verbatim>\<open>error\<close> method and ends the walk of that object: the result is what the properties
  before it (in sorted order) have contributed, and neither the property nor any later
  sibling adds to it.  This holds for \<open>diff\<close> at the root, and for an element of an array:
  there the loop over the matched pairs takes what the pair has contributed before the
  fault and goes on with the pairs after it, and when that loop is through, the walk of
  the enclosing object goes on with its next property.
\<close>

theorem config_error_ends_walk:
  assumes "sort (map fst (td_properties d)) = pre @ key # post"
    and "\<forall>k \<in> set pre. config_error d k = None"
    and "config_error d key = Some msg"
    and "\<not> isNil f" and "\<not> isNil t"
  shows "diff f t d =
           (case changes_keys pre [] f t d [] of
              Done changeResult lg \<Rightarrow> Done changeResult (lg @ [msg])
            | Thrown e lg \<Rightarrow> Thrown e lg) \<and>
         changes_inBoth (P1 @ (kv, f, t) # P2) cr n pks d lg =
           (case changes_inBoth P1 cr n pks d lg of
              Thrown e l \<Rightarrow> Thrown e l
            | Done cr1 lg1 \<Rightarrow>
                (case changes_keys pre [] f t d lg1 of
                   Thrown e l \<Rightarrow> Thrown e l
                 | Done r lg2 \<Rightarrow>
                     changes_inBoth P2
                       (if length r > 0 then push_change cr1 n pks f r else cr1)
                       n pks d (lg2 @ [msg]))) \<and>
         (map_of (td_properties D) K = Some pd \<and> pd_name pd = Some n \<and> n \<noteq> [] \<and>
          pd_type pd = TComplex \<and> pd_descriptor pd = Some d \<and> toArray (td_primaryKey d) = Some pks \<and>
          \<not> isNil F \<and> \<not> isNil T \<and> isArray (get_prop F K) \<and> isArray (get_prop T K) \<longrightarrow>
          changes_keys (K # keys) crD F T D lgD =
            (case getChanges (elems (get_prop F K)) (elems (get_prop T K)) pks of
               Inl e \<Rightarrow> Thrown e lgD
             | Inr chs \<Rightarrow>
                 (case emit_unmatched chs crD n d lgD of
                    Thrown e l \<Rightarrow> Thrown e l
                  | Done cr1 lg1 \<Rightarrow>
                      (case changes_inBoth (inBoth chs) cr1 n pks d lg1 of
                         Thrown e l \<Rightarrow> Thrown e l
                       | Done cr2 lg2 \<Rightarrow> changes_keys keys cr2 F T D lg2))))"
proof (intro conjI impI)
  show "diff f t d =
           (case changes_keys pre [] f t d [] of
              Done changeResult lg \<Rightarrow> Done changeResult (lg @ [msg])
            | Thrown e lg \<Rightarrow> Thrown e lg)"
    unfolding diff_def by (rule processChanges_config_error[OF assms])
  show "changes_inBoth (P1 @ (kv, f, t) # P2) cr n pks d lg =
           (case changes_inBoth P1 cr n pks d lg of
              Thrown e l \<Rightarrow> Thrown e l
            | Done cr1 lg1 \<Rightarrow>
                (case changes_keys pre [] f t d lg1 of
                   Thrown e l \<Rightarrow> Thrown e l
                 | Done r lg2 \<Rightarrow>
                     changes_inBoth P2
                       (if length r > 0 then push_change cr1 n pks f r else cr1)
                       n pks d (lg2 @ [msg])))"
    by (rule changes_inBoth_config_error[OF assms])
next
  assume "map_of (td_properties D) K = Some pd \<and> pd_name pd = Some n \<and> n \<noteq> [] \<and>
          pd_type pd = TComplex \<and> pd_descriptor pd = Some d \<and> toArray (td_primaryKey d) = Some pks \<and>
          \<not> isNil F \<and> \<not> isNil T \<and> isArray (get_prop F K) \<and> isArray (get_prop T K)"
  then show "changes_keys (K # keys) crD F T D lgD =
            (case getChanges (elems (get_prop F K)) (elems (get_prop T K)) pks of
               Inl e \<Rightarrow> Thrown e lgD
             | Inr chs \<Rightarrow>
                 (case emit_unmatched chs crD n d lgD of
                    Thrown e l \<Rightarrow> Thrown e l
                  | Done cr1 lg1 \<Rightarrow>
                      (case changes_inBoth (inBoth chs) cr1 n pks d lg1 of
                         Thrown e l \<Rightarrow> Thrown e l
                       | Done cr2 lg2 \<Rightarrow> changes_keys keys cr2 F T D lg2)))"
    by (elim conjE) (rule changes_keys_complex_arrays)
qed

theorem config_error_ends_walk_witness:
  "diff (invoice_entry ''A2'' 20 False) (invoice_entry ''A2'' 20 True) invoice =
     Done [] [msg_primaryKey invoice ''lines''] \<and>
   changes_inBoth
     [(''number:a1;'', invoice_entry ''A1'' 10 False, invoice_entry ''A1'' 11 True),
      (''number:a2;'', invoice_entry ''A2'' 20 False, invoice_entry ''A2'' 20 True)]
     [] ''invoices'' [''number''] invoice [] =
     Done [(''invoices'', JArr [JObj [(''number'', JStr ''A1''),
                                       (''amount'', JObj [(''-'', JNum 10), (''+'', JNum 11)])]])]
          [msg_primaryKey invoice ''lines'', msg_primaryKey invoice ''lines''] \<and>
   diff ledger_from ledger_to ledger =
     Done [(''invoices'', JArr [JObj [(''number'', JStr ''A1''),
                                       (''amount'', JObj [(''-'', JNum 10), (''+'', JNum 11)])]]),
           (''owner'', JObj [(''-'', JStr ''ann''), (''+'', JStr ''bob'')])]
          [msg_primaryKey invoice ''lines'', msg_primaryKey invoice ''lines'']"
proof -
  let ?m = "msg_primaryKey invoice ''lines''"
  let ?a1 = "invoice_entry ''A1'' 10 False" and ?b1 = "invoice_entry ''A1'' 11 True"
  let ?a2 = "invoice_entry ''A2'' 20 False" and ?b2 = "invoice_entry ''A2'' 20 True"
  let ?pd = "PropertyDescriptor TComplex (Some invoice) (Some ''invoices'')"
  let ?r1 = "[(''invoices'', JArr [JObj [(''number'', JStr ''A1''),
                                       (''amount'', JObj [(''-'', JNum 10), (''+'', JNum 11)])]])]"
  have keys: "sort (map fst (td_properties invoice)) = [''amount''] @ ''lines'' # [''number'', ''paid'']"
    by code_simp
  have pre: "\<forall>k \<in> set [''amount'']. config_error invoice k = None"
    by code_simp
  have key: "config_error invoice ''lines'' = Some ?m"
    by code_simp
  have nn: "\<not> isNil ?a2" "\<not> isNil ?b2"
    by (simp_all add: invoice_entry_def)
  have first: "changes_inBoth [(''number:a1;'', ?a1, ?b1)] [] ''invoices'' [''number''] invoice [] =
                 Done ?r1 [?m]"
    by code_simp
  have own0: "changes_keys [''amount''] [] ?a2 ?b2 invoice [] = Done [] []"
    by code_simp
  have own1: "changes_keys [''amount''] [] ?a2 ?b2 invoice [?m] = Done [] [?m]"
    by code_simp
  have m: "map_of (td_properties ledger) ''invoices'' = Some ?pd"
    by (simp add: ledger_def create_def complex_def)
  have pk: "toArray (td_primaryKey invoice) = Some [''number'']"
    by (simp add: invoice_def create_def)
  have arr: "get_prop ledger_from ''invoices'' = JArr [?a1, ?a2]"
    "get_prop ledger_to ''invoices'' = JArr [?b1, ?b2]"
    by (simp_all add: ledger_from_def ledger_to_def)
  have g: "getChanges [?a1, ?a2] [?b1, ?b2] [''number''] =
             Inr (Changes [] [] [(''number:a1;'', ?a1, ?b1), (''number:a2;'', ?a2, ?b2)])"
    by code_simp
  have lk: "sort (map fst (td_properties ledger)) = [''invoices'', ''owner'']"
    by code_simp
  have last: "changes_keys [''owner''] ?r1 ledger_from ledger_to ledger [?m, ?m] =
     Done [(''invoices'', JArr [JObj [(''number'', JStr ''A1''),
                                       (''amount'', JObj [(''-'', JNum 10), (''+'', JNum 11)])]]),
           (''owner'', JObj [(''-'', JStr ''ann''), (''+'', JStr ''bob'')])]
          [?m, ?m]"
    by code_simp
  note T = config_error_ends_walk[OF keys pre key nn,
      where ?P1.0 = "[(''number:a1;'', ?a1, ?b1)]" and kv = "''number:a2;''" and ?P2.0 = "[]"
        and cr = "[]" and n = "''invoices''" and pks = "[''number'']" and lg = "[]"
        and D = ledger and K = "''invoices''" and pd = ?pd and F = ledger_from and T = ledger_to
        and keys = "[''owner'']" and crD = "[]" and lgD = "[]"]
  from T have 1: "diff ?a2 ?b2 invoice = Done [] [?m]"
    unfolding own0 by simp
  from T have 2: "changes_inBoth [(''number:a1;'', ?a1, ?b1), (''number:a2;'', ?a2, ?b2)]
                    [] ''invoices'' [''number''] invoice [] = Done ?r1 [?m, ?m]"
    unfolding first outcome.case own1 by simp
  from T m pk have "changes_keys [''invoices'', ''owner''] [] ledger_from ledger_to ledger [] =
      Done [(''invoices'', JArr [JObj [(''number'', JStr ''A1''),
                                       (''amount'', JObj [(''-'', JNum 10), (''+'', JNum 11)])]]),
           (''owner'', JObj [(''-'', JStr ''ann''), (''+'', JStr ''bob'')])]
          [?m, ?m]"
    unfolding arr elems.simps g using 2 last
    by (simp add: emit_unmatched_def ledger_from_def ledger_to_def del: changes_keys.simps changes_inBoth.simps)
  then have 3: "diff ledger_from ledger_to ledger =
      Done [(''invoices'', JArr [JObj [(''number'', JStr ''A1''),
                                       (''amount'', JObj [(''-'', JNum 10), (''+'', JNum 11)])]]),
           (''owner'', JObj [(''-'', JStr ''ann''), (''+'', JStr ''bob'')])]
          [?m, ?m]"
    unfolding diff_def processChanges.simps lk .
  from 1 2 3 show ?thesis by (intro conjI)
qed



text \<open>
  C6, as stated, fails: the elements of two primitive arrays are compared by their
  \<^verbatim>\<open>JSON.stringify\<close> serialisations, which depend on the order of the keys of an object.
  The two objects below are deeply equal and differ in key order only, and the diff
  reports the one as removed and the other as added.
\<close>

theorem primitive_array_key_order:
  "isEqual (JObj [(''a'', JStr ''x''), (''b'', JStr ''y'')]) (JObj [(''b'', JStr ''y''), (''a'', JStr ''x'')]) \<and>
   diff (JObj [(''tags'', JArr [JObj [(''a'', JStr ''x''), (''b'', JStr ''y'')]])])
        (JObj [(''tags'', JArr [JObj [(''b'', JStr ''y''), (''a'', JStr ''x'')]])]) tagged =
     Done [(''tags'', JArr
              [JObj [(''-'', JArr [JObj [(''a'', JStr ''x''), (''b'', JStr ''y'')]])],
               JObj [(''+'', JArr [JObj [(''b'', JStr ''y''), (''a'', JStr ''x'')]])]])]
          []"
  by code_simp

text \<open>
  C6, amended.  For a primitive property whose two values are arrays, the walk treats
  them as unordered sets under equality of the \<^verbatim>\<open>JSON.stringify\<close> serialisations of their
  elements (which is sensitive to the key order of objects): the removed items are the
  elements of \<^verbatim>\<open>from\<close> whose serialisation is that of no element of \<^verbatim>\<open>to\<close>, the added items
  the other way round.  It emits nothing when both lists are empty, and else sets the
  property to a sequence with the removed marker holding the sorted removed items, if
  there are any, followed by the added marker holding the sorted added items, if there
  are any.  \<open>sortBy\<close> sorts strings, and numbers, in ascending order.
\<close>

theorem primitive_arrays_as_sets:
  assumes "map_of (td_properties d) key = Some pd"
    and "pd_name pd = Some n" and "n \<noteq> []" and "pd_type pd \<noteq> TComplex"
    and "\<not> isNil f" and "\<not> isNil t"
    and "get_prop f n = JArr xs" and "get_prop t n = JArr ys"
  shows "changes_keys (key # keys) cr f t d lg =
           changes_keys keys
             (let removedItems = filter (\<lambda>x. JSON_stringify x \<notin> JSON_stringify ` set ys) xs;
                  addedItems = filter (\<lambda>y. JSON_stringify y \<notin> JSON_stringify ` set xs) ys
              in if removedItems = [] \<and> addedItems = [] then cr
                 else set_prop cr n
                        (JArr ((if removedItems = [] then []
                                else [JObj [(''-'', JArr (sortBy removedItems))]])
                             @ (if addedItems = [] then []
                                else [JObj [(''+'', JArr (sortBy addedItems))]]))))
             f t d lg \<and>
         (\<forall>ss. sortBy (map JStr ss) = map JStr (sort ss)) \<and>
         (\<forall>ns. sortBy (map JNum ns) = map JNum (sort ns))"
  using assms by (simp add: diff_primitive_arrays sortBy_JStr sortBy_JNum)

theorem primitive_arrays_as_sets_witness:
  "diff (JObj [(''tags'', JArr [JStr ''b'', JStr ''a'', JStr ''c''])])
        (JObj [(''tags'', JArr [JStr ''c'', JStr ''d''])]) tagged =
     Done [(''tags'', JArr [JObj [(''-'', JArr [JStr ''a'', JStr ''b''])],
                            JObj [(''+'', JArr [JStr ''d''])]])] []"
proof -
  let ?f = "JObj [(''tags'', JArr [JStr ''b'', JStr ''a'', JStr ''c''])]"
  let ?t = "JObj [(''tags'', JArr [JStr ''c'', JStr ''d''])]"
  let ?pd = "PropertyDescriptor TString None (Some ''tags'')"
  have m: "map_of (td_properties tagged) ''tags'' = Some ?pd"
    by (simp add: tagged_def create_def string_def)
  have keys: "sort (map fst (td_properties tagged)) = [''tags'']"
    by code_simp
  show ?thesis
    using primitive_arrays_as_sets[of tagged "''tags''" ?pd "''tags''" ?f ?t
        "[JStr ''b'', JStr ''a'', JStr ''c'']" "[JStr ''c'', JStr ''d'']" "[]" "[]" "[]"] m
    by (simp add: diff_def keys JSON_stringify_def quote_def escape_char_def sortBy_def
                  compareAscending_def js_less_def)
qed

text \<open>
  C2. For every value \<open>x\<close> that is structurally compatible with the descriptor \<open>d\<close> (an
  object whose complex properties are nil or arrays of compatible objects),
  \<open>diff x x d\<close> returns the empty change result: no property has an entry, so there is no
  nested entry at any level.
\<close>

theorem diff_identity:
  assumes "compatible d x"
  shows "\<exists>lg. diff x x d = Done [] lg"
  unfolding diff_def using assms by (rule processChanges_identity)

theorem diff_identity_witness:
  "compatible automobileCollection example_from \<and>
   (\<exists>lg. diff example_from example_from automobileCollection = Done [] lg)"
proof -
  have c: "compatible automobileCollection example_from"
    by (simp add: compatible.simps automobileCollection_def automobile_def automobileFeature_def
         example_from_def removedCar_def modifiedCar_def truck_def feature_1_def create_def
         complex_def string_def number_def boolean_def)
  from diff_identity[OF c] c show ?thesis by simp
qed

text \<open>
  C3. Let two objects differ only in that the array of one complex property is reordered
  (the second array is a permutation of the first), let the first object be structurally
  compatible with the descriptor, and let the canonical primary keys of the elements of
  that array be pairwise different.  Then \<open>diff\<close> returns the empty change result; in
  particular it has no entry for that property.
\<close>

theorem diff_order_independent:
  assumes "compatible d (JObj ps)"
    and "map_of (td_properties d) key = Some pd" and "pd_type pd = TComplex"
    and "pd_descriptor pd = Some ptd" and "toArray (td_primaryKey ptd) = Some pks"
    and "lookup ps key = JArr xs" and "mset ys = mset xs"
    and "distinct (map (\<lambda>e. canonical_key e pks) xs)"
  shows "\<exists>lg. diff (JObj ps) (JObj (set_prop ps key (JArr ys))) d = Done [] lg"
proof -
  let ?f = "JObj ps" and ?t = "JObj (set_prop ps key (JArr ys))"
  from assms(7) have set: "set ys = set xs" by (rule mset_eq_setD)
  have nested: "\<exists>lg'. processChanges cr x x ptd lg = Done cr lg'"
    if "compatible ptd x" for key pd ptd cr x lg
    using that by (rule processChanges_identity)
  have prim: "get_prop ?t n = get_prop ?f n \<or>
                 (\<exists>xs ys. get_prop ?f n = JArr xs \<and> get_prop ?t n = JArr ys \<and> set ys = set xs)" for n
    using assms(6) set by (simp add: lookup_set_prop)
  have cplx: "\<forall>k. first_with pks' k ys' = first_with pks' k xs'"
    if "map_of (td_properties d) key' = Some pd'" "pd_descriptor pd' = Some ptd'"
      "toArray (td_primaryKey ptd') = Some pks'"
      "get_prop ?f key' = JArr xs'" "get_prop ?t key' = JArr ys'"
    for key' pd' ptd' pks' xs' ys'
  proof (cases "key' = key")
    case True
    with that assms(2,4,5,6) have "pks' = pks" "xs' = xs" "ys' = ys"
      by (simp_all add: lookup_set_prop)
    then show ?thesis using first_with_unique[OF assms(8) set] by simp
  next
    case False
    with that have "ys' = xs'" by (simp add: lookup_set_prop)
    then show ?thesis by simp
  qed
  have "\<exists>lg'. changes_keys (sort (map fst (td_properties d))) [] ?f ?t d [] = Done [] lg'"
    by (rule changes_keys_unchanged[OF nested assms(1) _ prim cplx]) auto
  then show ?thesis by (simp add: diff_def)
qed

theorem diff_order_independent_witness:
  "\<exists>lg. diff (JObj [(''cars'', JArr [JObj [(''id'', JStr ''a'')], JObj [(''id'', JStr ''b'')]])])
             (JObj [(''cars'', JArr [JObj [(''id'', JStr ''b'')], JObj [(''id'', JStr ''a'')]])])
             automobileCollection = Done [] lg"
proof -
  let ?a = "JObj [(''id'', JStr ''a'')]" and ?b = "JObj [(''id'', JStr ''b'')]"
  let ?pd = "PropertyDescriptor TComplex (Some automobile) (Some ''cars'')"
  have c: "compatible automobileCollection (JObj [(''cars'', JArr [?a, ?b])])"
    by (simp add: compatible.simps automobileCollection_def automobile_def automobileFeature_def
         create_def complex_def string_def number_def boolean_def)
  have m: "map_of (td_properties automobileCollection) ''cars'' = Some ?pd"
    by (simp add: automobileCollection_def create_def complex_def)
  have pk: "toArray (td_primaryKey automobile) = Some [''id'']"
    by (simp add: automobile_def create_def)
  have d: "distinct (map (\<lambda>e. canonical_key e [''id'']) [?a, ?b])"
    by (simp add: canonical_key_def key_piece_def or_empty_def toLowerCase_def lower_char_def)
  have p: "mset [?b, ?a] = mset [?a, ?b]" by simp
  from diff_order_independent[OF c m _ _ pk _ p d] show ?thesis by simp
qed

text \<open>
  C9. Let \<open>d\<close> be the descriptor of an element, with every property name bound to its key
  and every complex property given a type descriptor, and let the element \<open>e\<close> be
  structurally compatible with it.  Then the snapshot projector returns, and in the
  snapshot \<open>r\<close>: every key is a property of \<open>d\<close>; a primitive property that is not nil has
  its value, unchanged; a complex property with a non-empty array has the sequence of the
  snapshots of the array's elements under the nested descriptor, and one with an empty
  array has no key; and a property whose value is nil (\<^verbatim>\<open>null\<close>, \<^verbatim>\<open>undefined\<close> or absent) has no
  key.
\<close>

theorem snapshot_sparse:
  assumes "well_configured d" and "compatible d e"
  shows "\<exists>r lg'. processComplexTypeTransformations [] e d lg = Done r lg' \<and>
           distinct (map fst r) \<and> fst ` set r \<subseteq> fst ` set (td_properties d) \<and>
           (\<forall>key pd. map_of (td_properties d) key = Some pd \<longrightarrow>
              (if pd_type pd = TComplex then
                 (\<forall>ptd es. pd_descriptor pd = Some ptd \<longrightarrow> get_prop e key = JArr es \<longrightarrow>
                    (if es = [] then key \<notin> fst ` set r
                     else \<exists>rs. (key, JArr rs) \<in> set r \<and>
                            list_all2 (\<lambda>e' s. \<exists>l l' r'. s = JObj r' \<and>
                               processComplexTypeTransformations [] e' ptd l = Done r' l') es rs)) \<and>
                 (isNil (get_prop e key) \<longrightarrow> key \<notin> fst ` set r)
               else if isNil (get_prop e key) then key \<notin> fst ` set r
               else (key, get_prop e key) \<in> set r))"
proof -
  from snapshot_total[OF assms(2), of "[]" lg] obtain r lg' where
    dn: "processComplexTypeTransformations [] e d lg = Done r lg'" by blast
  let ?keys = "sort (map fst (td_properties d))"
  from dn have t: "transform_keys ?keys [] e d lg = Done r lg'" by simp
  have dk: "distinct ?keys" using assms(1) by (simp add: well_configured_def)
  from transform_keys_result[OF assms(1) dk _ _ _ t]
  have res: "distinct (map fst r)" "fst ` set r \<subseteq> set ?keys"
    "\<forall>key \<in> set ?keys. \<forall>pd. map_of (td_properties d) key = Some pd \<longrightarrow> snapshot_property e r key pd"
    by simp_all
  have "snapshot_property e r key pd" if "map_of (td_properties d) key = Some pd" for key pd
  proof -
    from that have "key \<in> set ?keys" by (auto dest: map_of_SomeD simp: rev_image_eqI)
    with res(3) that show ?thesis by blast
  qed
  then have all: "\<forall>key pd. map_of (td_properties d) key = Some pd \<longrightarrow> snapshot_property e r key pd"
    by blast
  have sub: "fst ` set r \<subseteq> fst ` set (td_properties d)" using res(2) by simp
  show ?thesis
    using dn res(1) sub all[unfolded snapshot_property_def rendered_def]
    by (intro exI[of _ r] exI[of _ lg'] conjI) assumption+
qed

theorem snapshot_sparse_witness:
  "well_configured automobile \<and> compatible automobile addedCar \<and>
   (\<exists>r lg'. processComplexTypeTransformations [] addedCar automobile [] = Done r lg' \<and>
      ''salePrice'' \<notin> fst ` set r \<and> (''msrp'', JNum 15000) \<in> set r)"
proof -
  have w: "well_configured automobile"
    by (simp add: well_configured_def automobile_def automobileFeature_def create_def
         complex_def string_def number_def boolean_def)
  have c: "compatible automobile addedCar"
    by (simp add: compatible.simps automobile_def automobileFeature_def addedCar_def feature_1_def
         create_def complex_def string_def number_def boolean_def)
  have s: "map_of (td_properties automobile) ''salePrice'' = Some (PropertyDescriptor TNumber None (Some ''salePrice''))"
    and m: "map_of (td_properties automobile) ''msrp'' = Some (PropertyDescriptor TNumber None (Some ''msrp''))"
    by (simp_all add: automobile_def create_def complex_def string_def number_def)
  have vs: "get_prop addedCar ''salePrice'' = JUndefined" and vm: "get_prop addedCar ''msrp'' = JNum 15000"
    by (simp_all add: addedCar_def)
  from snapshot_sparse[OF w c, of "[]"] obtain r lg' where
    d: "processComplexTypeTransformations [] addedCar automobile [] = Done r lg'"
    and p: "\<And>key pd. map_of (td_properties automobile) key = Some pd \<Longrightarrow>
              pd_type pd \<noteq> TComplex \<Longrightarrow>
              (if isNil (get_prop addedCar key) then key \<notin> fst ` set r
               else (key, get_prop addedCar key) \<in> set r)"
    by (metis (no_types, lifting))
  from p[OF s] vs have "''salePrice'' \<notin> fst ` set r" by simp
  moreover from p[OF m] vm have "(''msrp'', JNum 15000) \<in> set r" by simp
  ultimately show ?thesis using w c d by blast
qed




end
